theory Spec2Isabelle
  imports Main "HOL-Library.Log_Nat"
begin

section \<open>JavaScript values used by the pool service and the SDK\<close>

subsection \<open>Errors\<close>

text \<open>
  Every \<^verbatim>\<open>throw\<close> of the modelled code is a constructor: a rejected
  \<^verbatim>\<open>getProgramAccounts\<close> call (with the message of the collaborator), a failing
  \<^verbatim>\<open>coder.accounts.decode\<close>, \<^verbatim>\<open>new Error('Invalid pool reserves')\<close>,
  \<^verbatim>\<open>new Error('No pool found')\<close>, and the \<^verbatim>\<open>RangeError\<close> of a BigInt
  division by \<^verbatim>\<open>0n\<close>.
\<close>

datatype error =
    RpcError string
  | DecodeError
  | InvalidPoolReserves
  | NoPoolFound
  | RangeError

subsection \<open>BigInt division\<close>

text \<open>
  \<^verbatim>\<open>a / b\<close> on BigInt truncates towards zero and throws a RangeError when
  \<^verbatim>\<open>b\<close> is \<^verbatim>\<open>0n\<close>. HOL's \<open>div\<close> on \<open>int\<close> rounds down and returns 0 for
  a zero divisor, so both are written out.
\<close>

definition tdiv :: "int \<Rightarrow> int \<Rightarrow> int" where
  "tdiv a b = sgn a * sgn b * (\<bar>a\<bar> div \<bar>b\<bar>)"

definition bigint_div :: "int \<Rightarrow> int \<Rightarrow> error + int" where
  "bigint_div a b = (if b = 0 then Inl RangeError else Inr (tdiv a b))"

subsection \<open>Numbers: IEEE 754 binary64\<close>

text \<open>
  A JavaScript \<^verbatim>\<open>number\<close> is a double. \<open>Finite r\<close> is the double whose value is
  the rational \<open>r\<close> (\<open>Finite 0\<close> is \<^verbatim>\<open>+0\<close>), \<open>NegZero\<close> is \<^verbatim>\<open>-0\<close>.
  NaN payloads are not distinguished: JavaScript cannot observe them.
\<close>

datatype number = Finite rat | NegZero | PosInf | NegInf | NaN

definition pow2 :: "int \<Rightarrow> rat" where
  "pow2 e = (if 0 \<le> e then 2 ^ nat e else 1 / 2 ^ nat (- e))"

text \<open>For \<open>x > 0\<close>, \<open>floor_log2 x\<close> is the exponent \<open>e\<close> with \<open>2^e \<le> x < 2^(e+1)\<close>.\<close>

definition floor_log2 :: "rat \<Rightarrow> int" where
  "floor_log2 x =
     (let (p, q) = quotient_of x; e0 = bitlen p - bitlen q
      in if pow2 e0 \<le> x then e0 else e0 - 1)"

definition round_half_even :: "rat \<Rightarrow> int" where
  "round_half_even y =
     (let f = \<lfloor>y\<rfloor>; d = y - of_int f
      in if d < 1 / 2 then f else if 1 / 2 < d then f + 1
         else if even f then f else f + 1)"

text \<open>
  Round to nearest, ties to even, in binary64: 53 significant bits, least normal
  exponent \<open>-1022\<close> (below it the spacing stays \<open>2^-1074\<close>: subnormals, and underflow to
  a zero that keeps the sign), overflow to an infinity once the rounded magnitude
  reaches \<open>2^1024\<close>.
\<close>

definition round_double :: "rat \<Rightarrow> number" where
  "round_double x =
     (if x = 0 then Finite 0
      else let a = \<bar>x\<bar>;
               e = max (floor_log2 a) (- 1022);
               u = pow2 (e - 52);
               r = of_int (round_half_even (a / u)) * u
           in if pow2 1024 \<le> r then (if 0 < x then PosInf else NegInf)
              else if r = 0 then (if 0 < x then Finite 0 else NegZero)
              else Finite (if 0 < x then r else - r))"

text \<open>\<^verbatim>\<open>Number(b)\<close> for a BigInt \<^verbatim>\<open>b\<close>: the double nearest to its value.\<close>

definition Number :: "int \<Rightarrow> number" where
  "Number b = round_double (of_int b)"

fun val :: "number \<Rightarrow> rat" where
  "val (Finite r) = r"
| "val _ = 0"

fun rank :: "number \<Rightarrow> int" where
  "rank PosInf = 1"
| "rank NegInf = - 1"
| "rank _ = 0"

fun is_neg :: "number \<Rightarrow> bool" where
  "is_neg (Finite r) = (r < 0)"
| "is_neg NegZero = True"
| "is_neg NegInf = True"
| "is_neg _ = False"

fun is_zero :: "number \<Rightarrow> bool" where
  "is_zero (Finite r) = (r = 0)"
| "is_zero NegZero = True"
| "is_zero _ = False"

fun is_inf :: "number \<Rightarrow> bool" where
  "is_inf PosInf = True"
| "is_inf NegInf = True"
| "is_inf _ = False"

text \<open>\<^verbatim>\<open>x / y\<close> on numbers: IEEE 754 division.\<close>

definition number_div :: "number \<Rightarrow> number \<Rightarrow> number" where
  "number_div x y =
     (if x = NaN \<or> y = NaN then NaN
      else if is_inf x \<and> is_inf y then NaN
      else if is_zero x \<and> is_zero y then NaN
      else if is_inf x \<or> is_zero y then (if is_neg x \<noteq> is_neg y then NegInf else PosInf)
      else if is_zero x \<or> is_inf y then (if is_neg x \<noteq> is_neg y then NegZero else Finite 0)
      else round_double (val x / val y))"

text \<open>\<^verbatim>\<open>x > y\<close> on numbers: false whenever an operand is NaN; \<^verbatim>\<open>-0\<close> equals \<^verbatim>\<open>+0\<close>.\<close>

definition js_gt :: "number \<Rightarrow> number \<Rightarrow> bool" where
  "js_gt x y \<longleftrightarrow>
     x \<noteq> NaN \<and> y \<noteq> NaN \<and> (rank y < rank x \<or> (rank x = rank y \<and> val y < val x))"

text \<open>The falsy numbers are \<^verbatim>\<open>+0\<close>, \<^verbatim>\<open>-0\<close> and NaN.\<close>

definition truthy :: "number \<Rightarrow> bool" where
  "truthy x \<longleftrightarrow> \<not> is_zero x \<and> x \<noteq> NaN"

subsection \<open>Promises\<close>

text \<open>
  A settled promise is the time at which it settled and its outcome. \<^verbatim>\<open>Promise.all\<close>
  rejects with the reason of the promise that rejected first in time (the earlier
  index when two reactions are queued at the same time) and otherwise fulfils, once
  the last one has, with the values in index order.
\<close>

type_synonym 'a promise = "nat \<times> (error + 'a)"

fun first_rejection :: "'a promise list \<Rightarrow> (nat \<times> error) option" where
  "first_rejection [] = None"
| "first_rejection ((t, Inr v) # ps) = first_rejection ps"
| "first_rejection ((t, Inl e) # ps) =
     (case first_rejection ps of
        None \<Rightarrow> Some (t, e)
      | Some (t', e') \<Rightarrow> if t' < t then Some (t', e') else Some (t, e))"

fun fulfilled :: "'a promise list \<Rightarrow> 'a list" where
  "fulfilled [] = []"
| "fulfilled ((t, Inr v) # ps) = v # fulfilled ps"
| "fulfilled ((t, Inl e) # ps) = fulfilled ps"

definition promise_all :: "'a promise list \<Rightarrow> 'a list promise" where
  "promise_all ps =
     (case first_rejection ps of
        Some (t, e) \<Rightarrow> (t, Inl e)
      | None \<Rightarrow> (foldr max (map fst ps) 0, Inr (fulfilled ps)))"

text \<open>\<^verbatim>\<open>await p\<close>: the outcome, a rejection becoming a throw.\<close>

definition await :: "'a promise \<Rightarrow> error + 'a" where
  "await p = snd p"

section \<open>Data model (types)\<close>

type_synonym PublicKey = string

definition WSOL :: PublicKey where
  "WSOL = ''So11111111111111111111111111111111111111112''"

definition LAMPORTS_PER_SOL :: number where
  "LAMPORTS_PER_SOL = Finite 1000000000"

text \<open>\<^verbatim>\<open>DEFAULTS.DECIMALS\<close> is 6; \<^verbatim>\<open>Math.pow(10, 6)\<close> is the double 1000000.\<close>

definition DECIMALS :: nat where
  "DECIMALS = 6"

definition pow10_DECIMALS :: number where
  "pow10_DECIMALS = Finite (10 ^ DECIMALS)"

text \<open>
  \<^verbatim>\<open>poolData\<close> is typed \<^verbatim>\<open>any\<close>; the code reads the two BigInt fields
  \<^verbatim>\<open>baseReserve\<close> and \<^verbatim>\<open>quoteReserve\<close> of it and nothing else.
\<close>

record PoolData =
  baseReserve :: int
  quoteReserve :: int

record Pool =
  address :: PublicKey
  is_native_base :: bool
  poolData :: PoolData

record Reserves =
  native :: number
  token :: number

record PoolWithPrice = Pool +
  price :: number
  reserves :: Reserves

subsection \<open>The connection\<close>

text \<open>
  \<^verbatim>\<open>connection.getProgramAccounts(PROGRAM_IDS.PUMP_AMM, {filters: [{dataSize: 211}, ...]})\<close>
  is the external collaborator: a connection maps the \<^verbatim>\<open>memcmp\<close> filters of a query
  to the settled promise of its response. The bytes of an account are kept as what
  \<^verbatim>\<open>program.coder.accounts.decode('pool', data)\<close> makes of them.
\<close>

datatype memcmp = Memcmp nat PublicKey

datatype account_data = Decodable PoolData | Undecodable

record ProgramAccount =
  pubkey :: PublicKey
  account :: account_data

type_synonym connection = "memcmp list \<Rightarrow> ProgramAccount list promise"

definition decode :: "account_data \<Rightarrow> error + PoolData" where
  "decode d = (case d of Decodable pd \<Rightarrow> Inr pd | Undecodable \<Rightarrow> Inl DecodeError)"

section \<open>PoolService\<close>

text \<open>
  \<^verbatim>\<open>response.map((pool) => ({address: pool.pubkey, is_native_base, poolData: decode(...)}))\<close>:
  the first account that does not decode throws.
\<close>

fun to_pools :: "bool \<Rightarrow> ProgramAccount list \<Rightarrow> error + Pool list" where
  "to_pools nb [] = Inr []"
| "to_pools nb (a # as) =
     (case decode (account a) of
        Inl e \<Rightarrow> Inl e
      | Inr pd \<Rightarrow>
          (case to_pools nb as of
             Inl e \<Rightarrow> Inl e
           | Inr ps \<Rightarrow> Inr (\<lparr>address = pubkey a, is_native_base = nb, poolData = pd\<rparr> # ps)))"

definition lookup :: "connection \<Rightarrow> memcmp list \<Rightarrow> bool \<Rightarrow> Pool list promise" where
  "lookup conn filters nb =
     (let (t, response) = conn filters
      in (t, case response of Inl e \<Rightarrow> Inl e | Inr accounts \<Rightarrow> to_pools nb accounts))"

definition getPoolsWithBaseMint :: "connection \<Rightarrow> PublicKey \<Rightarrow> Pool list promise" where
  "getPoolsWithBaseMint conn mintAddress = lookup conn [Memcmp 43 mintAddress] False"

definition getPoolsWithQuoteMint :: "connection \<Rightarrow> PublicKey \<Rightarrow> Pool list promise" where
  "getPoolsWithQuoteMint conn mintAddress = lookup conn [Memcmp 75 mintAddress] True"

definition getPoolsWithBaseMintQuoteWSOL :: "connection \<Rightarrow> PublicKey \<Rightarrow> Pool list promise" where
  "getPoolsWithBaseMintQuoteWSOL conn mintAddress =
     lookup conn [Memcmp 43 mintAddress, Memcmp 75 WSOL] False"

definition getPriceAndLiquidity :: "Pool \<Rightarrow> error + PoolWithPrice" where
  "getPriceAndLiquidity pool =
     (let baseReserve = baseReserve (poolData pool);
          quoteReserve = quoteReserve (poolData pool)
      in if baseReserve = 0 \<or> quoteReserve = 0 then Inl InvalidPoolReserves
         else Inr \<lparr>address = address pool,
                   is_native_base = is_native_base pool,
                   poolData = poolData pool,
                   price = number_div (Number quoteReserve) (Number baseReserve),
                   reserves = \<lparr>native = number_div (Number quoteReserve) LAMPORTS_PER_SOL,
                               token = number_div (Number baseReserve) pow10_DECIMALS\<rparr>\<rparr>)"

text \<open>
  The three lookups run concurrently under \<^verbatim>\<open>Promise.all\<close>. The promises of
  \<^verbatim>\<open>getPriceAndLiquidity\<close>, which never suspends, are all settled when the second
  \<^verbatim>\<open>Promise.all\<close> looks at them.
\<close>

definition getPoolsWithPrices :: "connection \<Rightarrow> PublicKey \<Rightarrow> error + PoolWithPrice list" where
  "getPoolsWithPrices conn mintAddress =
     (case await (promise_all [getPoolsWithBaseMint conn mintAddress,
                               getPoolsWithQuoteMint conn mintAddress,
                               getPoolsWithBaseMintQuoteWSOL conn mintAddress]) of
        Inl e \<Rightarrow> Inl e
      | Inr results \<Rightarrow>
          (let allPools = concat results
           in case await (promise_all (map (\<lambda>pool. (0, getPriceAndLiquidity pool)) allPools)) of
                Inl e \<Rightarrow> Inl e
              | Inr poolsWithPrices \<Rightarrow>
                  Inr (filter (\<lambda>pool. js_gt (price pool) (Finite 0)) poolsWithPrices)))"

definition better :: "PoolWithPrice \<Rightarrow> PoolWithPrice \<Rightarrow> PoolWithPrice" where
  "better best current =
     (if js_gt (native (reserves current)) (native (reserves best)) then current else best)"

definition getBestPool :: "connection \<Rightarrow> PublicKey \<Rightarrow> error + PoolWithPrice option" where
  "getBestPool conn mintAddress =
     (case getPoolsWithPrices conn mintAddress of
        Inl e \<Rightarrow> Inl e
      | Inr pools \<Rightarrow>
          (case pools of
             [] \<Rightarrow> Inr None
           | p # ps \<Rightarrow> Inr (Some (foldl better p ps))))"

text \<open>\<^verbatim>\<open>bestPool?.price || null\<close>\<close>

definition price_or_null :: "PoolWithPrice option \<Rightarrow> number option" where
  "price_or_null bestPool =
     (case bestPool of
        None \<Rightarrow> None
      | Some p \<Rightarrow> if truthy (price p) then Some (price p) else None)"

definition getPrice :: "connection \<Rightarrow> PublicKey \<Rightarrow> error + number option" where
  "getPrice conn mintAddress =
     (case getBestPool conn mintAddress of
        Inl e \<Rightarrow> Inl e
      | Inr bestPool \<Rightarrow> Inr (price_or_null bestPool))"

section \<open>PumpSwapSDK: quotes and slippage\<close>

definition calculateBuyTokenAmount :: "connection \<Rightarrow> int \<Rightarrow> PublicKey \<Rightarrow> error + int" where
  "calculateBuyTokenAmount conn solAmount mint =
     (case getBestPool conn mint of
        Inl e \<Rightarrow> Inl e
      | Inr None \<Rightarrow> Inl NoPoolFound
      | Inr (Some pool) \<Rightarrow>
          (let baseReserve = baseReserve (poolData pool);
               quoteReserve = quoteReserve (poolData pool);
               k = baseReserve * quoteReserve;
               newQuoteReserve = quoteReserve + solAmount
           in case bigint_div k newQuoteReserve of
                Inl e \<Rightarrow> Inl e
              | Inr newBaseReserve \<Rightarrow> Inr (baseReserve - newBaseReserve)))"

definition calculateSellSolAmount :: "connection \<Rightarrow> int \<Rightarrow> PublicKey \<Rightarrow> error + int" where
  "calculateSellSolAmount conn tokenAmount mint =
     (case getBestPool conn mint of
        Inl e \<Rightarrow> Inl e
      | Inr None \<Rightarrow> Inl NoPoolFound
      | Inr (Some pool) \<Rightarrow>
          (let baseReserve = baseReserve (poolData pool);
               quoteReserve = quoteReserve (poolData pool);
               k = baseReserve * quoteReserve;
               newBaseReserve = baseReserve + tokenAmount
           in case bigint_div k newBaseReserve of
                Inl e \<Rightarrow> Inl e
              | Inr newQuoteReserve \<Rightarrow> Inr (quoteReserve - newQuoteReserve)))"

text \<open>The divisor \<^verbatim>\<open>10000n\<close> is a literal: these two cannot throw.\<close>

definition calculateWithSlippageBuy :: "int \<Rightarrow> int \<Rightarrow> int" where
  "calculateWithSlippageBuy amount basisPoints = tdiv (amount * (10000 - basisPoints)) 10000"

definition calculateWithSlippageSell :: "int \<Rightarrow> int \<Rightarrow> int" where
  "calculateWithSlippageSell amount basisPoints = tdiv (amount * (10000 - basisPoints)) 10000"

section \<open>Example connections\<close>

text \<open>
  Four pools of one mint. In raw units \<open>poolA\<close> holds 1 token and 5 SOL, \<open>poolB\<close>
  2 tokens and 12 SOL, \<open>poolC\<close> 1 token and 3 SOL, \<open>poolD\<close> 4 tokens and 12 SOL.
\<close>

definition mintX :: PublicKey where
  "mintX = ''MintX''"

definition accountA :: ProgramAccount where
  "accountA = \<lparr>pubkey = ''poolA'',
                account = Decodable \<lparr>baseReserve = 1000000, quoteReserve = 5000000000\<rparr>\<rparr>"

definition accountB :: ProgramAccount where
  "accountB = \<lparr>pubkey = ''poolB'',
                account = Decodable \<lparr>baseReserve = 2000000, quoteReserve = 12000000000\<rparr>\<rparr>"

definition accountC :: ProgramAccount where
  "accountC = \<lparr>pubkey = ''poolC'',
                account = Decodable \<lparr>baseReserve = 1000000, quoteReserve = 3000000000\<rparr>\<rparr>"

definition accountD :: ProgramAccount where
  "accountD = \<lparr>pubkey = ''poolD'',
                account = Decodable \<lparr>baseReserve = 4000000, quoteReserve = 12000000000\<rparr>\<rparr>"

text \<open>An account whose pool has no base reserve.\<close>

definition accountZ :: ProgramAccount where
  "accountZ = \<lparr>pubkey = ''poolZ'',
                account = Decodable \<lparr>baseReserve = 0, quoteReserve = 7000000000\<rparr>\<rparr>"

text \<open>
  \<open>conn1\<close>: the token-as-base query finds A and B, the token-as-quote query finds C,
  the query for the token as base with WSOL as quote finds A again, and D.
\<close>

definition conn1 :: connection where
  "conn1 filters =
     (if filters = [Memcmp 43 mintX] then (3, Inr [accountA, accountB])
      else if filters = [Memcmp 75 mintX] then (1, Inr [accountC])
      else if filters = [Memcmp 43 mintX, Memcmp 75 WSOL] then (2, Inr [accountA, accountD])
      else (0, Inr []))"

text \<open>\<open>connZ\<close>: the token-as-base query finds A and the pool without base reserve.\<close>

definition connZ :: connection where
  "connZ filters =
     (if filters = [Memcmp 43 mintX] then (1, Inr [accountA, accountZ])
      else (2, Inr []))"

text \<open>\<open>connF\<close>: the token-as-quote query is rejected, the other two answer.\<close>

definition connF :: connection where
  "connF filters =
     (if filters = [Memcmp 43 mintX] then (1, Inr [accountA])
      else if filters = [Memcmp 75 mintX] then (2, Inl (RpcError ''429 Too Many Requests''))
      else (3, Inr []))"

text \<open>\<open>connE\<close>: every query completes and matches nothing.\<close>

definition connE :: connection where
  "connE filters = (1, Inr [])"

text \<open>The candidates of a lookup, and the priced pools of \<open>conn1\<close>.\<close>

definition candidate :: "PublicKey \<Rightarrow> bool \<Rightarrow> int \<Rightarrow> int \<Rightarrow> Pool" where
  "candidate a nb b q =
     \<lparr>address = a, is_native_base = nb, poolData = \<lparr>baseReserve = b, quoteReserve = q\<rparr>\<rparr>"

definition priced ::
  "PublicKey \<Rightarrow> bool \<Rightarrow> int \<Rightarrow> int \<Rightarrow> rat \<Rightarrow> rat \<Rightarrow> rat \<Rightarrow> PoolWithPrice" where
  "priced a nb b q p n t =
     \<lparr>address = a, is_native_base = nb,
      poolData = \<lparr>baseReserve = b, quoteReserve = q\<rparr>,
      price = Finite p, reserves = \<lparr>native = Finite n, token = Finite t\<rparr>\<rparr>"

definition pricedA :: PoolWithPrice where
  "pricedA = priced ''poolA'' False 1000000 5000000000 5000 5 1"

definition pricedB :: PoolWithPrice where
  "pricedB = priced ''poolB'' False 2000000 12000000000 6000 12 2"

definition pricedC :: PoolWithPrice where
  "pricedC = priced ''poolC'' True 1000000 3000000000 3000 3 1"

definition pricedD :: PoolWithPrice where
  "pricedD = priced ''poolD'' False 4000000 12000000000 3000 12 4"

section \<open>Rounding to a double\<close>

lemma pow2_powi: "pow2 e = 2 powi e"
  by (simp add: pow2_def power_int_def inverse_eq_divide power_one_over)

lemma pow2_pos: "0 < pow2 e"
  by (simp add: pow2_powi)

lemma pow2_add: "pow2 (a + b) = pow2 a * pow2 b"
  by (simp add: pow2_powi power_int_add)

lemma pow2_mono: "a \<le> b \<Longrightarrow> pow2 a \<le> pow2 b"
  by (simp add: pow2_powi power_int_increasing)

lemma pow2_strict_mono: "a < b \<Longrightarrow> pow2 a < pow2 b"
  by (simp add: pow2_powi power_int_strict_increasing)

lemma pow2_less_iff: "pow2 a < pow2 b \<longleftrightarrow> a < b"
  using pow2_strict_mono[of a b] pow2_mono[of b a] by (auto simp: not_less[symmetric])

lemma pow2_le_iff: "pow2 a \<le> pow2 b \<longleftrightarrow> a \<le> b"
  using pow2_strict_mono[of b a] pow2_mono[of a b] by (auto simp: not_le[symmetric])

lemma pow2_diff: "pow2 (a - b) = pow2 a / pow2 b"
  by (simp add: pow2_powi power_int_diff)

lemma pow2_nat: "pow2 (int n) = 2 ^ n"
  by (simp add: pow2_def)

lemma bitlen_pow2_bounds:
  assumes "0 < p"
  shows "pow2 (bitlen p - 1) \<le> of_int p" "of_int p < pow2 (bitlen p)"
proof -
  from bitlen_bounds[OF assms] have a: "2 ^ nat (bitlen p - 1) \<le> p" and b: "p < 2 ^ nat (bitlen p)"
    by auto
  have ge1: "1 \<le> bitlen p" using assms by (simp add: bitlen_alt_def)
  have "pow2 (bitlen p - 1) = of_int (2 ^ nat (bitlen p - 1))"
    using ge1 by (simp add: pow2_def)
  also have "\<dots> \<le> of_int p" using a by (simp only: of_int_le_iff)
  finally show "pow2 (bitlen p - 1) \<le> of_int p" .
  have "(of_int p :: rat) < of_int (2 ^ nat (bitlen p))" using b by (simp only: of_int_less_iff)
  also have "\<dots> = pow2 (bitlen p)" using ge1 by (simp add: pow2_def)
  finally show "of_int p < pow2 (bitlen p)" .
qed

lemma floor_log2_bounds:
  assumes "0 < x"
  shows "pow2 (floor_log2 x) \<le> x" "x < pow2 (floor_log2 x + 1)"
proof -
  obtain p q where pq: "quotient_of x = (p, q)" by (cases "quotient_of x")
  then have q: "0 < q" and x: "x = of_int p / of_int q"
    by (simp_all add: quotient_of_denom_pos quotient_of_div)
  have p: "0 < p" using assms q x by (simp add: zero_less_divide_iff)
  let ?e0 = "bitlen p - bitlen q"
  have qpos: "(0::rat) < of_int q" using q by simp
  have up: "x < pow2 (?e0 + 1)"
  proof -
    have "x < pow2 (bitlen p) / of_int q"
      unfolding x using bitlen_pow2_bounds(2)[OF p] qpos by (simp add: divide_strict_right_mono)
    also have "\<dots> \<le> pow2 (bitlen p) / pow2 (bitlen q - 1)"
      using bitlen_pow2_bounds(1)[OF q] pow2_pos[of "bitlen q - 1"] pow2_pos[of "bitlen p"]
      by (simp add: frac_le)
    also have "\<dots> = pow2 (bitlen p - (bitlen q - 1))"
      by (simp only: pow2_diff)
    also have "\<dots> = pow2 (?e0 + 1)"
      by (simp add: algebra_simps)
    finally show ?thesis .
  qed
  have lo: "pow2 (?e0 - 1) \<le> x"
  proof -
    have "pow2 (?e0 - 1) = pow2 (bitlen p - 1 - bitlen q)"
      by (simp add: algebra_simps)
    also have "\<dots> = pow2 (bitlen p - 1) / pow2 (bitlen q)"
      by (simp only: pow2_diff)
    also have "\<dots> \<le> of_int p / of_int q"
      using bitlen_pow2_bounds(1)[OF p] bitlen_pow2_bounds(2)[OF q] qpos pow2_pos[of "bitlen p - 1"]
      by (intro frac_le) simp_all
    finally show ?thesis by (simp add: x)
  qed
  have fl: "floor_log2 x = (if pow2 ?e0 \<le> x then ?e0 else ?e0 - 1)"
    by (simp add: floor_log2_def pq Let_def)
  show "pow2 (floor_log2 x) \<le> x" using lo by (simp add: fl)
  show "x < pow2 (floor_log2 x + 1)" using up by (auto simp add: fl)
qed

lemma floor_log2_ge: "0 < x \<Longrightarrow> pow2 k \<le> x \<Longrightarrow> k \<le> floor_log2 x"
  using floor_log2_bounds(2)[of x] pow2_less_iff[of k "floor_log2 x + 1"] by simp

lemma floor_log2_less: "0 < x \<Longrightarrow> x < pow2 k \<Longrightarrow> floor_log2 x < k"
  using floor_log2_bounds(1)[of x] pow2_less_iff[of "floor_log2 x" k] by simp

lemma round_half_even_of_int: "round_half_even (of_int n) = n"
  by (simp add: round_half_even_def)

lemma round_half_even_ge: "of_int k \<le> y \<Longrightarrow> k \<le> round_half_even y"
proof -
  assume "of_int k \<le> y"
  then have "k \<le> \<lfloor>y\<rfloor>" by (simp add: le_floor_iff)
  then show ?thesis by (simp add: round_half_even_def Let_def)
qed

lemma round_half_even_le: "y \<le> of_int k \<Longrightarrow> round_half_even y \<le> k"
proof (cases "y = of_int \<lfloor>y\<rfloor>")
  case True
  assume "y \<le> of_int k"
  then have "\<lfloor>y\<rfloor> \<le> k" by (simp add: floor_le_iff)
  moreover have "round_half_even y = \<lfloor>y\<rfloor>"
    using True round_half_even_of_int[of "\<lfloor>y\<rfloor>"] by simp
  ultimately show ?thesis by simp
next
  case False
  assume yk: "y \<le> of_int k"
  have le: "of_int \<lfloor>y\<rfloor> \<le> y" by (rule of_int_floor_le)
  have ne: "of_int \<lfloor>y\<rfloor> \<noteq> y" using False by (rule not_sym)
  have "of_int \<lfloor>y\<rfloor> < y" using le ne by (rule le_neq_trans)
  then have "of_int \<lfloor>y\<rfloor> < (of_int k :: rat)" using yk by simp
  then have "\<lfloor>y\<rfloor> < k" by (simp only: of_int_less_iff)
  then show ?thesis by (simp add: round_half_even_def Let_def)
qed

lemma round_double_normal:
  assumes x: "0 < x" and lo: "pow2 a \<le> x" and hi: "x < pow2 b"
    and a: "- 1022 \<le> a" and b: "b \<le> 1024"
  shows "\<exists>r. round_double x = (if r = pow2 1024 then PosInf else Finite r)
           \<and> pow2 a \<le> r \<and> r \<le> pow2 b"
proof -
  let ?e = "floor_log2 x"
  let ?u = "pow2 (?e - 52)"
  let ?m = "round_half_even (x / ?u)"
  let ?r = "of_int ?m * ?u"
  have ae: "a \<le> ?e" using floor_log2_ge[OF x lo] .
  have eb: "?e < b" using floor_log2_less[OF x hi] .
  have mx: "max ?e (- 1022) = ?e" using a ae by simp
  have upos: "0 < ?u" by (rule pow2_pos)
  have "pow2 52 = pow2 ?e / ?u" by (simp add: pow2_diff[symmetric])
  also have "\<dots> \<le> x / ?u"
    using floor_log2_bounds(1)[OF x] upos by (simp add: divide_right_mono)
  finally have "of_int (2 ^ 52) \<le> x / ?u" by (simp add: pow2_def)
  then have m_lo: "2 ^ 52 \<le> ?m" by (rule round_half_even_ge)
  have "x / ?u \<le> pow2 (?e + 1) / ?u"
    using floor_log2_bounds(2)[OF x] upos by (simp add: divide_right_mono)
  also have "\<dots> = pow2 (?e + 1 - (?e - 52))" by (simp only: pow2_diff)
  also have "\<dots> = pow2 53" by simp
  finally have "x / ?u \<le> of_int (2 ^ 53)" by (simp add: pow2_def)
  then have m_hi: "?m \<le> 2 ^ 53" by (rule round_half_even_le)
  have "pow2 ?e = pow2 52 * ?u" by (simp add: pow2_add[symmetric])
  also have "\<dots> = of_int (2 ^ 52) * ?u" by (simp add: pow2_def)
  also have "\<dots> \<le> ?r"
    using m_lo upos by (intro mult_right_mono) (simp_all only: of_int_le_iff less_imp_le)
  finally have r_lo: "pow2 ?e \<le> ?r" .
  have "?r \<le> of_int (2 ^ 53) * ?u"
    using m_hi upos by (intro mult_right_mono) (simp_all only: of_int_le_iff less_imp_le)
  also have "\<dots> = pow2 53 * ?u" by (simp add: pow2_def)
  also have "\<dots> = pow2 (?e + 1)" by (simp add: pow2_add[symmetric] add.commute)
  finally have r_hi: "?r \<le> pow2 (?e + 1)" .
  have r_pos: "0 < ?r" using r_lo pow2_pos[of ?e] by simp
  have r_a: "pow2 a \<le> ?r" using r_lo pow2_mono[OF ae] by simp
  have "pow2 (?e + 1) \<le> pow2 b" using eb by (intro pow2_mono) simp
  then have r_b: "?r \<le> pow2 b" using r_hi by simp
  have "pow2 b \<le> pow2 1024" using b by (rule pow2_mono)
  then have r_max: "?r \<le> pow2 1024" using r_b by simp
  have "round_double x = (if pow2 1024 \<le> ?r then PosInf else Finite ?r)"
    using x r_pos by (simp add: round_double_def Let_def mx)
  also have "\<dots> = (if ?r = pow2 1024 then PosInf else Finite ?r)"
    using r_max by auto
  finally show ?thesis using r_a r_b by blast
qed

lemma round_double_finite:
  assumes x: "0 < x" and lo: "pow2 a \<le> x" and hi: "x < pow2 b"
    and a: "- 1022 \<le> a" and b: "b \<le> 1023"
  shows "\<exists>r. round_double x = Finite r \<and> pow2 a \<le> r \<and> r \<le> pow2 b"
proof -
  from round_double_normal[OF x lo hi a] b obtain r where
    r: "round_double x = (if r = pow2 1024 then PosInf else Finite r)" "pow2 a \<le> r" "r \<le> pow2 b"
    by auto
  have "pow2 b < pow2 1024" using b by (intro pow2_strict_mono) simp
  then have "r \<noteq> pow2 1024" using r(3) by auto
  then show ?thesis using r by auto
qed

lemma round_double_exact:
  assumes n: "0 < n" "n < 2 ^ 53"
  shows "round_double (of_int n) = Finite (of_int n)"
proof -
  let ?x = "of_int n :: rat"
  let ?e = "floor_log2 ?x"
  let ?u = "pow2 (?e - 52)"
  have x: "0 < ?x" using n by simp
  have "pow2 0 \<le> ?x" using n by (simp add: pow2_def)
  then have e0: "0 \<le> ?e" using floor_log2_ge[OF x] by simp
  have "?x < of_int (2 ^ 53)" using n(2) by (simp only: of_int_less_iff)
  then have "?x < pow2 53" by (simp add: pow2_def)
  then have e53: "?e < 53" using floor_log2_less[OF x] by simp
  have mx: "max ?e (- 1022) = ?e" using e0 by simp
  have u: "?u = 1 / 2 ^ nat (52 - ?e)" using e53 by (simp add: pow2_def)
  have "?x / ?u = of_int (n * 2 ^ nat (52 - ?e))" by (simp add: u)
  then have m: "round_half_even (?x / ?u) = n * 2 ^ nat (52 - ?e)"
    by (simp only: round_half_even_of_int)
  have r: "of_int (round_half_even (?x / ?u)) * ?u = ?x"
    by (simp add: m) (simp add: u)
  have "?x < pow2 53" by fact
  also have "\<dots> < pow2 1024" by (intro pow2_strict_mono) simp
  finally have big: "\<not> pow2 1024 \<le> ?x" by simp
  show ?thesis
    using x big by (simp add: round_double_def Let_def mx r del: of_int_mult)
qed

lemma round_double_not_NaN: "round_double x \<noteq> NaN"
  by (simp add: round_double_def Let_def)

section \<open>Conversion, division and comparison of numbers\<close>

lemma Number_not_NaN: "Number n \<noteq> NaN"
  by (simp add: Number_def round_double_not_NaN)

lemma Number_exact: "0 < n \<Longrightarrow> n < 2 ^ 53 \<Longrightarrow> Number n = Finite (of_int n)"
  by (simp only: Number_def round_double_exact)

lemma number_div_finite:
  "a \<noteq> 0 \<Longrightarrow> b \<noteq> 0 \<Longrightarrow> number_div (Finite a) (Finite b) = round_double (a / b)"
  by (simp add: number_div_def)

lemma number_div_exact:
  assumes "0 < c" "c < 2 ^ 53" "b \<noteq> 0" "a = of_int c * b"
  shows "number_div (Finite a) (Finite b) = Finite (of_int c)"
proof -
  have "a \<noteq> 0" using assms by simp
  moreover have "a / b = of_int c" using assms by simp
  ultimately show ?thesis
    using assms(1,2,3) by (simp add: number_div_finite round_double_exact)
qed

lemma number_div_not_NaN:
  "x \<noteq> NaN \<Longrightarrow> c \<noteq> 0 \<Longrightarrow> number_div x (Finite c) \<noteq> NaN"
  by (cases x) (auto simp: number_div_def round_double_not_NaN)

text \<open>Reserves in the range of an unsigned 64-bit integer.\<close>

lemma Number_u64:
  assumes "0 < n" "n < 2 ^ 64"
  shows "\<exists>r. Number n = Finite r \<and> 1 \<le> r \<and> r \<le> 2 ^ 64"
proof -
  have x: "0 < (of_int n :: rat)" using assms by simp
  have lo: "pow2 0 \<le> of_int n" using assms by (simp add: pow2_def)
  have "(of_int n :: rat) < of_int (2 ^ 64)" using assms(2) by (simp only: of_int_less_iff)
  then have hi: "of_int n < pow2 64" by (simp add: pow2_def)
  from round_double_finite[OF x lo hi] show ?thesis
    by (simp add: Number_def pow2_def)
qed

lemma price_u64:
  assumes "0 < q" "q < 2 ^ 64" "0 < b" "b < 2 ^ 64"
  shows "\<exists>r. number_div (Number q) (Number b) = Finite r \<and> 0 < r"
proof -
  from Number_u64[OF assms(1,2)] obtain x where x: "Number q = Finite x" "1 \<le> x" "x \<le> 2 ^ 64"
    by blast
  from Number_u64[OF assms(3,4)] obtain y where y: "Number b = Finite y" "1 \<le> y" "y \<le> 2 ^ 64"
    by blast
  have pos: "0 < x / y" using x y by simp
  have "pow2 (- 64) = 1 / 2 ^ 64" by (simp add: pow2_def)
  also have "\<dots> \<le> x / y" using x y by (intro frac_le) simp_all
  finally have lo: "pow2 (- 64) \<le> x / y" .
  have "x / y \<le> 2 ^ 64 / 1" using x y by (intro frac_le) simp_all
  also have "\<dots> < pow2 65" by (simp add: pow2_def)
  finally have hi: "x / y < pow2 65" .
  from round_double_finite[OF pos lo hi] obtain r where
    r: "round_double (x / y) = Finite r" "pow2 (- 64) \<le> r" by auto
  have "0 < r" using r(2) pow2_pos[of "- 64"] by simp
  moreover have "number_div (Number q) (Number b) = round_double (x / y)"
    using x y by (simp add: number_div_finite)
  ultimately show ?thesis using r(1) by simp
qed

lemma js_gt_Finite: "js_gt (Finite a) (Finite b) \<longleftrightarrow> b < a"
  by (simp add: js_gt_def)

lemma js_gt_truthy: "js_gt x (Finite 0) \<Longrightarrow> truthy x"
  by (cases x) (auto simp: js_gt_def truthy_def)

lemma js_gt_trans1:
  "x \<noteq> NaN \<Longrightarrow> \<not> js_gt x r \<Longrightarrow> js_gt c r \<Longrightarrow> js_gt c x"
  by (cases x; cases r; cases c) (auto simp: js_gt_def)

lemma js_gt_trans2:
  "js_gt c r \<Longrightarrow> \<not> js_gt x r \<Longrightarrow> \<not> js_gt x c"
  by (cases x; cases r; cases c) (auto simp: js_gt_def)

lemma js_gt_irrefl: "\<not> js_gt x x"
  by (simp add: js_gt_def)

section \<open>Promise.all\<close>

lemma first_rejection_None: "first_rejection ps = None \<longleftrightarrow> (\<forall>p\<in>set ps. \<not> isl (snd p))"
proof (induction ps)
  case Nil
  show ?case by simp
next
  case (Cons p ps)
  obtain t r where p: "p = (t, r)" by (cases p)
  show ?case using Cons by (cases r) (auto simp: p split: option.splits)
qed

lemma first_rejection_Some: "first_rejection ps = Some (t, e) \<Longrightarrow> (t, Inl e) \<in> set ps"
proof (induction ps arbitrary: t e)
  case Nil
  then show ?case by simp
next
  case (Cons p ps)
  obtain t' r where p: "p = (t', r)" by (cases p)
  show ?case
  proof (cases r)
    case (Inl e')
    with Cons p show ?thesis
      by (auto split: option.splits if_splits)
  next
    case (Inr v)
    with Cons p show ?thesis by auto
  qed
qed

lemma fulfilled_Inr: "first_rejection ps = None \<Longrightarrow> map snd ps = map Inr (fulfilled ps)"
proof (induction ps)
  case Nil
  show ?case by simp
next
  case (Cons p ps)
  obtain t r where p: "p = (t, r)" by (cases p)
  show ?case using Cons by (cases r) (auto simp: p split: option.splits if_splits)
qed

lemma fulfilled_map_Inr: "map snd ps = map Inr vs \<Longrightarrow> fulfilled ps = vs"
proof (induction ps arbitrary: vs)
  case Nil
  then show ?case by simp
next
  case (Cons p ps)
  obtain t r where p: "p = (t, r)" by (cases p)
  from Cons.prems obtain v vs' where vs: "vs = v # vs'" by (cases vs) auto
  show ?case using Cons by (auto simp: p vs)
qed

lemma await_promise_all_Inr:
  "await (promise_all ps) = Inr vs \<longleftrightarrow> map snd ps = map Inr vs"
proof
  assume a: "await (promise_all ps) = Inr vs"
  then have n: "first_rejection ps = None"
    by (auto simp: await_def promise_all_def split: option.splits)
  with a have "fulfilled ps = vs" by (simp add: await_def promise_all_def)
  with fulfilled_Inr[OF n] show "map snd ps = map Inr vs" by simp
next
  assume m: "map snd ps = map Inr vs"
  have "\<forall>p\<in>set ps. \<not> isl (snd p)"
  proof
    fix p assume "p \<in> set ps"
    then have "snd p \<in> set (map Inr vs)" using m[symmetric] by (simp only: set_map) simp
    then show "\<not> isl (snd p)" by auto
  qed
  then have n: "first_rejection ps = None" by (simp only: first_rejection_None)
  show "await (promise_all ps) = Inr vs"
    by (simp add: await_def promise_all_def n fulfilled_map_Inr[OF m])
qed

lemma await_promise_all_Inl:
  "await (promise_all ps) = Inl e \<Longrightarrow> \<exists>t. (t, Inl e) \<in> set ps"
  by (auto simp: await_def promise_all_def split: option.splits dest!: first_rejection_Some)

lemma await_promise_all_rejects:
  assumes "p \<in> set ps" "isl (snd p)"
  shows "\<exists>e. await (promise_all ps) = Inl e"
proof -
  have "first_rejection ps \<noteq> None" using assms by (auto simp: first_rejection_None)
  then show ?thesis by (auto simp: await_def promise_all_def split: option.splits)
qed

section \<open>Lookups and pricing\<close>

lemma lookup_rejected:
  "snd (conn filters) = Inl e \<Longrightarrow> await (lookup conn filters nb) = Inl e"
  by (cases "conn filters") (simp add: await_def lookup_def)

lemma lookup_empty:
  "snd (conn filters) = Inr [] \<Longrightarrow> await (lookup conn filters nb) = Inr []"
  by (cases "conn filters") (simp add: await_def lookup_def)

lemma getPriceAndLiquidity_Inl:
  "getPriceAndLiquidity p = Inl e \<longleftrightarrow>
     e = InvalidPoolReserves \<and> (baseReserve (poolData p) = 0 \<or> quoteReserve (poolData p) = 0)"
  by (auto simp: getPriceAndLiquidity_def Let_def)

lemma getPriceAndLiquidity_Inr:
  assumes "baseReserve (poolData p) \<noteq> 0" "quoteReserve (poolData p) \<noteq> 0"
  shows "getPriceAndLiquidity p = Inr (projr (getPriceAndLiquidity p))"
  using assms by (simp add: getPriceAndLiquidity_def Let_def)

lemma getPriceAndLiquidity_fields:
  assumes "getPriceAndLiquidity p = Inr x"
  shows "address x = address p" "is_native_base x = is_native_base p" "poolData x = poolData p"
    "baseReserve (poolData p) \<noteq> 0" "quoteReserve (poolData p) \<noteq> 0"
    "price x = number_div (Number (quoteReserve (poolData p))) (Number (baseReserve (poolData p)))"
    "native (reserves x) = number_div (Number (quoteReserve (poolData p))) LAMPORTS_PER_SOL"
    "token (reserves x) = number_div (Number (baseReserve (poolData p))) pow10_DECIMALS"
  using assms by (auto simp: getPriceAndLiquidity_def Let_def split: if_splits)

lemma truncate_priced:
  "getPriceAndLiquidity p = Inr x \<Longrightarrow> Pool.truncate x = p"
  by (auto simp: getPriceAndLiquidity_def Let_def Pool.truncate_def Pool.defs PoolWithPrice.defs split: if_splits)

lemma priced_u64_positive:
  assumes "0 < baseReserve (poolData c)" "baseReserve (poolData c) < 2 ^ 64"
    "0 < quoteReserve (poolData c)" "quoteReserve (poolData c) < 2 ^ 64"
  shows "js_gt (price (projr (getPriceAndLiquidity c))) (Finite 0)"
proof -
  have g: "getPriceAndLiquidity c = Inr (projr (getPriceAndLiquidity c))"
    using assms by (intro getPriceAndLiquidity_Inr) simp_all
  from price_u64[OF assms(3,4,1,2)] obtain r where
    "number_div (Number (quoteReserve (poolData c))) (Number (baseReserve (poolData c))) = Finite r"
    "0 < r" by blast
  then show ?thesis
    by (simp add: getPriceAndLiquidity_fields(6)[OF g] js_gt_Finite)
qed

lemma pricing_all:
  assumes "\<forall>p\<in>set ps. baseReserve (poolData p) \<noteq> 0 \<and> quoteReserve (poolData p) \<noteq> 0"
  shows "await (promise_all (map (\<lambda>pool. (0, getPriceAndLiquidity pool)) ps))
           = Inr (map (projr \<circ> getPriceAndLiquidity) ps)"
proof -
  have "map snd (map (\<lambda>pool. (0::nat, getPriceAndLiquidity pool)) ps)
          = map Inr (map (projr \<circ> getPriceAndLiquidity) ps)"
    using assms getPriceAndLiquidity_Inr by (induction ps) auto
  then show ?thesis by (simp only: await_promise_all_Inr)
qed

lemma pricing_degenerate:
  assumes "p \<in> set ps" "baseReserve (poolData p) = 0 \<or> quoteReserve (poolData p) = 0"
  shows "await (promise_all (map (\<lambda>pool. (0, getPriceAndLiquidity pool)) ps))
           = Inl InvalidPoolReserves"
proof -
  let ?qs = "map (\<lambda>pool. (0::nat, getPriceAndLiquidity pool)) ps"
  have "getPriceAndLiquidity p = Inl InvalidPoolReserves"
    using assms(2) by (simp add: getPriceAndLiquidity_Inl)
  then have rej: "isl (snd (0::nat, getPriceAndLiquidity p))" by simp
  have mem: "(0, getPriceAndLiquidity p) \<in> set ?qs" using assms(1) by simp
  from await_promise_all_rejects[OF mem rej] obtain e where e: "await (promise_all ?qs) = Inl e"
    by blast
  from await_promise_all_Inl[OF e] obtain t where "(t, Inl e) \<in> set ?qs" by blast
  then obtain p' where "getPriceAndLiquidity p' = Inl e" by auto
  then have "e = InvalidPoolReserves" by (simp add: getPriceAndLiquidity_Inl)
  with e show ?thesis by simp
qed

lemma pricing_Inr:
  assumes "await (promise_all (map (\<lambda>pool. (0, getPriceAndLiquidity pool)) ps)) = Inr xs"
  shows "map getPriceAndLiquidity ps = map Inr xs"
  using assms by (simp add: await_promise_all_Inr comp_def)

lemma lookups_all:
  assumes "await (getPoolsWithBaseMint conn m) = Inr bs"
    "await (getPoolsWithQuoteMint conn m) = Inr qs"
    "await (getPoolsWithBaseMintQuoteWSOL conn m) = Inr ws"
  shows "await (promise_all [getPoolsWithBaseMint conn m, getPoolsWithQuoteMint conn m,
                             getPoolsWithBaseMintQuoteWSOL conn m]) = Inr [bs, qs, ws]"
  using assms unfolding await_promise_all_Inr by (simp add: await_def)

lemma lookups_Inr:
  assumes "await (promise_all [getPoolsWithBaseMint conn m, getPoolsWithQuoteMint conn m,
                               getPoolsWithBaseMintQuoteWSOL conn m]) = Inr results"
  shows "\<exists>bs qs ws. results = [bs, qs, ws]
           \<and> await (getPoolsWithBaseMint conn m) = Inr bs
           \<and> await (getPoolsWithQuoteMint conn m) = Inr qs
           \<and> await (getPoolsWithBaseMintQuoteWSOL conn m) = Inr ws"
proof -
  from assms have "[snd (getPoolsWithBaseMint conn m), snd (getPoolsWithQuoteMint conn m),
      snd (getPoolsWithBaseMintQuoteWSOL conn m)] = map Inr results"
    by (simp add: await_promise_all_Inr)
  then show ?thesis by (auto simp: await_def)
qed

section \<open>Discovery\<close>

lemma getPoolsWithPrices_lookups:
  assumes "await (getPoolsWithBaseMint conn m) = Inr bs"
    "await (getPoolsWithQuoteMint conn m) = Inr qs"
    "await (getPoolsWithBaseMintQuoteWSOL conn m) = Inr ws"
  shows "getPoolsWithPrices conn m =
     (case await (promise_all (map (\<lambda>pool. (0, getPriceAndLiquidity pool)) (bs @ qs @ ws))) of
        Inl e \<Rightarrow> Inl e
      | Inr poolsWithPrices \<Rightarrow>
          Inr (filter (\<lambda>pool. js_gt (price pool) (Finite 0)) poolsWithPrices))"
  by (simp add: getPoolsWithPrices_def lookups_all[OF assms] Let_def)

lemma getPoolsWithPrices_priced:
  assumes "await (getPoolsWithBaseMint conn m) = Inr bs"
    "await (getPoolsWithQuoteMint conn m) = Inr qs"
    "await (getPoolsWithBaseMintQuoteWSOL conn m) = Inr ws"
    "\<forall>p\<in>set (bs @ qs @ ws). baseReserve (poolData p) \<noteq> 0 \<and> quoteReserve (poolData p) \<noteq> 0"
  shows "getPoolsWithPrices conn m =
     Inr (filter (\<lambda>pool. js_gt (price pool) (Finite 0))
            (map (projr \<circ> getPriceAndLiquidity) (bs @ qs @ ws)))"
  by (simp only: getPoolsWithPrices_lookups[OF assms(1-3)] pricing_all[OF assms(4)] sum.case)

lemma getPoolsWithPrices_lookup_rejected:
  assumes "isl (await (getPoolsWithBaseMint conn m))
    \<or> isl (await (getPoolsWithQuoteMint conn m))
    \<or> isl (await (getPoolsWithBaseMintQuoteWSOL conn m))"
  shows "\<exists>e. getPoolsWithPrices conn m = Inl e
    \<and> (await (getPoolsWithBaseMint conn m) = Inl e
       \<or> await (getPoolsWithQuoteMint conn m) = Inl e
       \<or> await (getPoolsWithBaseMintQuoteWSOL conn m) = Inl e)"
proof -
  let ?ps = "[getPoolsWithBaseMint conn m, getPoolsWithQuoteMint conn m,
              getPoolsWithBaseMintQuoteWSOL conn m]"
  from assms have "\<exists>p\<in>set ?ps. isl (snd p)" by (simp add: await_def)
  then obtain p where "p \<in> set ?ps" "isl (snd p)" by blast
  from await_promise_all_rejects[OF this] obtain e where e: "await (promise_all ?ps) = Inl e"
    by blast
  from await_promise_all_Inl[OF e] obtain t where "(t, Inl e) \<in> set ?ps" by blast
  then have "await (getPoolsWithBaseMint conn m) = Inl e
       \<or> await (getPoolsWithQuoteMint conn m) = Inl e
       \<or> await (getPoolsWithBaseMintQuoteWSOL conn m) = Inl e"
    by (auto simp: await_def dest: arg_cong[where f = snd])
  moreover have "getPoolsWithPrices conn m = Inl e"
    by (simp add: getPoolsWithPrices_def e)
  ultimately show ?thesis by blast
qed

lemma getPoolsWithPrices_Inr:
  assumes "getPoolsWithPrices conn m = Inr xs"
  shows "\<exists>bs qs ws ys. await (getPoolsWithBaseMint conn m) = Inr bs
           \<and> await (getPoolsWithQuoteMint conn m) = Inr qs
           \<and> await (getPoolsWithBaseMintQuoteWSOL conn m) = Inr ws
           \<and> map getPriceAndLiquidity (bs @ qs @ ws) = map Inr ys
           \<and> xs = filter (\<lambda>pool. js_gt (price pool) (Finite 0)) ys"
proof -
  let ?ps = "[getPoolsWithBaseMint conn m, getPoolsWithQuoteMint conn m,
              getPoolsWithBaseMintQuoteWSOL conn m]"
  from assms obtain results where r: "await (promise_all ?ps) = Inr results"
    by (cases "await (promise_all ?ps)") (auto simp: getPoolsWithPrices_def)
  from lookups_Inr[OF r] obtain bs qs ws where l: "results = [bs, qs, ws]"
    "await (getPoolsWithBaseMint conn m) = Inr bs"
    "await (getPoolsWithQuoteMint conn m) = Inr qs"
    "await (getPoolsWithBaseMintQuoteWSOL conn m) = Inr ws" by blast
  let ?pr = "await (promise_all (map (\<lambda>pool. (0, getPriceAndLiquidity pool)) (bs @ qs @ ws)))"
  from assms obtain ys where ys: "?pr = Inr ys"
    "xs = filter (\<lambda>pool. js_gt (price pool) (Finite 0)) ys"
    by (cases ?pr) (auto simp: getPoolsWithPrices_lookups[OF l(2-4)])
  from pricing_Inr[OF ys(1)] l ys(2) show ?thesis by blast
qed

lemma discovered_pool:
  assumes "getPoolsWithPrices conn m = Inr xs" "x \<in> set xs"
  shows "\<exists>p. getPriceAndLiquidity p = Inr x \<and> js_gt (price x) (Finite 0)"
proof -
  from getPoolsWithPrices_Inr[OF assms(1)] obtain cs ys where
    ys: "map getPriceAndLiquidity cs = map Inr ys"
    and xs: "xs = filter (\<lambda>pool. js_gt (price pool) (Finite 0)) ys"
    by blast
  from assms(2) xs have y: "x \<in> set ys" and gt: "js_gt (price x) (Finite 0)" by auto
  from y have "Inr x \<in> set (map Inr ys)" by simp
  then have "Inr x \<in> set (map getPriceAndLiquidity cs)" by (simp only: ys)
  then obtain p where "getPriceAndLiquidity p = Inr x" by auto
  with gt show ?thesis by blast
qed

lemma discovered_native_not_NaN:
  assumes "getPoolsWithPrices conn m = Inr xs" "x \<in> set xs"
  shows "native (reserves x) \<noteq> NaN"
proof -
  from discovered_pool[OF assms] obtain p where "getPriceAndLiquidity p = Inr x" by blast
  then have "native (reserves x) = number_div (Number (quoteReserve (poolData p))) LAMPORTS_PER_SOL"
    by (rule getPriceAndLiquidity_fields)
  then show ?thesis
    by (simp add: LAMPORTS_PER_SOL_def number_div_not_NaN Number_not_NaN)
qed

section \<open>The reduction of \<open>getBestPool\<close>\<close>

text \<open>The reduction keeps the first pool among those with the greatest native reserve.\<close>

lemma foldl_better_first_max:
  assumes "\<forall>x\<in>set (p # ps). native (reserves x) \<noteq> NaN"
  shows "\<exists>i<length (p # ps). foldl better p ps = (p # ps) ! i
     \<and> (\<forall>j<length (p # ps).
           \<not> js_gt (native (reserves ((p # ps) ! j))) (native (reserves ((p # ps) ! i))))
     \<and> (\<forall>j<i. js_gt (native (reserves ((p # ps) ! i))) (native (reserves ((p # ps) ! j))))"
  using assms
proof (induction ps rule: rev_induct)
  case Nil
  show ?case by (simp add: js_gt_irrefl)
next
  case (snoc c ps)
  let ?k = "\<lambda>x. native (reserves x)"
  let ?xs = "p # ps"
  from snoc.prems have nn: "\<forall>x\<in>set ?xs. ?k x \<noteq> NaN" by simp
  from snoc.IH[OF nn] obtain i where i: "i < length ?xs" "foldl better p ps = ?xs ! i"
    and mx: "\<forall>j<length ?xs. \<not> js_gt (?k (?xs ! j)) (?k (?xs ! i))"
    and fst: "\<forall>j<i. js_gt (?k (?xs ! i)) (?k (?xs ! j))"
    by blast
  have app: "p # ps @ [c] = ?xs @ [c]" by simp
  have nth_old: "(?xs @ [c]) ! j = ?xs ! j" if "j < length ?xs" for j
    using that by (simp only: nth_append) simp
  have nth_new: "(?xs @ [c]) ! length ?xs = c" by (simp only: nth_append_length)
  show ?case
  proof (cases "js_gt (?k c) (?k (?xs ! i))")
    case True
    have res: "foldl better p (ps @ [c]) = c" using True i(2) by (simp add: better_def)
    have a: "\<not> js_gt (?k ((?xs @ [c]) ! j)) (?k c)" if "j < length (?xs @ [c])" for j
    proof (cases "j < length ?xs")
      case True
      with mx have "\<not> js_gt (?k (?xs ! j)) (?k (?xs ! i))" by blast
      with \<open>js_gt (?k c) (?k (?xs ! i))\<close> have "\<not> js_gt (?k (?xs ! j)) (?k c)"
        by (rule js_gt_trans2)
      then show ?thesis unfolding nth_old[OF True] .
    next
      case False
      with that have j: "j = length ?xs" by simp
      show ?thesis unfolding j nth_new by (rule js_gt_irrefl)
    qed
    have b: "js_gt (?k c) (?k ((?xs @ [c]) ! j))" if "j < length ?xs" for j
    proof -
      from that have "?xs ! j \<in> set ?xs" by (rule nth_mem)
      with nn have n: "?k (?xs ! j) \<noteq> NaN" by blast
      from mx that have "\<not> js_gt (?k (?xs ! j)) (?k (?xs ! i))" by blast
      with n have "js_gt (?k c) (?k (?xs ! j))" using True by (rule js_gt_trans1)
      then show ?thesis unfolding nth_old[OF that] .
    qed
    have "length ?xs < length (?xs @ [c])" by simp
    moreover have "foldl better p (ps @ [c]) = (?xs @ [c]) ! length ?xs"
      by (simp only: res nth_new)
    moreover have "\<forall>j<length (?xs @ [c]).
        \<not> js_gt (?k ((?xs @ [c]) ! j)) (?k ((?xs @ [c]) ! length ?xs))"
      using a unfolding nth_new by blast
    moreover have "\<forall>j<length ?xs. js_gt (?k ((?xs @ [c]) ! length ?xs)) (?k ((?xs @ [c]) ! j))"
      using b unfolding nth_new by blast
    ultimately show ?thesis unfolding app by blast
  next
    case False
    have res: "foldl better p (ps @ [c]) = ?xs ! i" using False i(2) by (simp add: better_def)
    have i': "i < length (?xs @ [c])" using i(1) by simp
    have a: "\<not> js_gt (?k ((?xs @ [c]) ! j)) (?k ((?xs @ [c]) ! i))" if "j < length (?xs @ [c])" for j
    proof (cases "j < length ?xs")
      case True
      with mx show ?thesis unfolding nth_old[OF True] nth_old[OF i(1)] by blast
    next
      case F: False
      with that have j: "j = length ?xs" by simp
      show ?thesis unfolding j nth_new nth_old[OF i(1)] by (rule False)
    qed
    have b: "js_gt (?k ((?xs @ [c]) ! i)) (?k ((?xs @ [c]) ! j))" if "j < i" for j
    proof -
      from that i(1) have j: "j < length ?xs" by simp
      from fst that show ?thesis unfolding nth_old[OF j] nth_old[OF i(1)] by blast
    qed
    have "foldl better p (ps @ [c]) = (?xs @ [c]) ! i" by (simp only: res nth_old[OF i(1)])
    with i' a b show ?thesis unfolding app by blast
  qed
qed

lemma best_pool_discovered:
  assumes "getBestPool conn m = Inr (Some p)"
  shows "\<exists>pools. getPoolsWithPrices conn m = Inr pools \<and> p \<in> set pools"
proof -
  from assms obtain pools where ps: "getPoolsWithPrices conn m = Inr pools"
    by (cases "getPoolsWithPrices conn m") (auto simp: getBestPool_def)
  from assms ps obtain x xs where c: "pools = x # xs" "p = foldl better x xs"
    by (cases pools) (auto simp: getBestPool_def)
  have nn: "\<forall>y\<in>set (x # xs). native (reserves y) \<noteq> NaN"
    using discovered_native_not_NaN[OF ps] c(1) by blast
  from foldl_better_first_max[OF nn] obtain i where
    "i < length (x # xs)" "foldl better x xs = (x # xs) ! i" by blast
  then have "p \<in> set pools" unfolding c using nth_mem by metis
  with ps show ?thesis by blast
qed

lemma getBestPool_None: "getBestPool conn m = Inr None \<longleftrightarrow> getPoolsWithPrices conn m = Inr []"
  by (auto simp: getBestPool_def split: sum.splits list.splits)

lemma getBestPool_Inl: "getBestPool conn m = Inl e \<longleftrightarrow> getPoolsWithPrices conn m = Inl e"
  by (auto simp: getBestPool_def split: sum.splits list.splits)

lemma getPrice_Inl: "getPrice conn m = Inl e \<longleftrightarrow> getBestPool conn m = Inl e"
  by (auto simp: getPrice_def split: sum.splits)

section \<open>The example connections, evaluated\<close>

lemma getPriceAndLiquidity_exact:
  assumes "0 < c" "0 < n" "0 < t" "b = t * 1000000" "q = n * 1000000000" "q = c * b"
    "q < 2 ^ 53"
  shows "getPriceAndLiquidity (candidate a nb b q)
           = Inr (priced a nb b q (of_int c) (of_int n) (of_int t))"
proof -
  have b: "0 < b" using assms by simp
  have q: "0 < q" using assms by simp
  have "b * 1 \<le> b * c" using b assms(1) by (intro mult_left_mono) simp_all
  then have bq: "b < 2 ^ 53" using assms(6,7) by (simp add: mult.commute)
  have "n * 1 \<le> n * 1000000000" using assms(2) by (intro mult_left_mono) simp_all
  then have n: "n < 2 ^ 53" using assms(5,7) by simp
  have "t * 1 \<le> t * 1000000" using assms(3) by (intro mult_left_mono) simp_all
  then have t: "t < 2 ^ 53" using assms(4) bq by simp
  have "c * 1 \<le> c * b" using b assms(1) by (intro mult_left_mono) simp_all
  then have c: "c < 2 ^ 53" using assms(6,7) by simp
  have Nq: "Number q = Finite (of_int q)" using q assms(7) by (rule Number_exact)
  have Nb: "Number b = Finite (of_int b)" using b bq by (rule Number_exact)
  have p: "number_div (Finite (of_int q)) (Finite (of_int b)) = Finite (of_int c)"
  proof (rule number_div_exact[OF assms(1) c])
    show "(of_int b :: rat) \<noteq> 0" using b by simp
    show "(of_int q :: rat) = of_int c * of_int b" by (simp add: assms(6))
  qed
  have nat: "number_div (Finite (of_int q)) LAMPORTS_PER_SOL = Finite (of_int n)"
    unfolding LAMPORTS_PER_SOL_def
    by (rule number_div_exact[OF assms(2) n]) (simp_all add: assms(5))
  have tok: "number_div (Finite (of_int b)) pow10_DECIMALS = Finite (of_int t)"
    unfolding pow10_DECIMALS_def DECIMALS_def
    by (rule number_div_exact[OF assms(3) t]) (simp_all add: assms(4))
  show ?thesis
    using b q by (simp add: getPriceAndLiquidity_def candidate_def priced_def Let_def Nq Nb p nat tok)
qed

lemma priceA: "getPriceAndLiquidity (candidate ''poolA'' False 1000000 5000000000) = Inr pricedA"
proof -
  have "getPriceAndLiquidity (candidate ''poolA'' False 1000000 5000000000)
      = Inr (priced ''poolA'' False 1000000 5000000000 (of_int 5000) (of_int 5) (of_int 1))"
    by (rule getPriceAndLiquidity_exact) simp_all
  then show ?thesis by (simp add: pricedA_def)
qed

lemma priceB: "getPriceAndLiquidity (candidate ''poolB'' False 2000000 12000000000) = Inr pricedB"
proof -
  have "getPriceAndLiquidity (candidate ''poolB'' False 2000000 12000000000)
      = Inr (priced ''poolB'' False 2000000 12000000000 (of_int 6000) (of_int 12) (of_int 2))"
    by (rule getPriceAndLiquidity_exact) simp_all
  then show ?thesis by (simp add: pricedB_def)
qed

lemma priceC: "getPriceAndLiquidity (candidate ''poolC'' True 1000000 3000000000) = Inr pricedC"
proof -
  have "getPriceAndLiquidity (candidate ''poolC'' True 1000000 3000000000)
      = Inr (priced ''poolC'' True 1000000 3000000000 (of_int 3000) (of_int 3) (of_int 1))"
    by (rule getPriceAndLiquidity_exact) simp_all
  then show ?thesis by (simp add: pricedC_def)
qed

lemma priceD: "getPriceAndLiquidity (candidate ''poolD'' False 4000000 12000000000) = Inr pricedD"
proof -
  have "getPriceAndLiquidity (candidate ''poolD'' False 4000000 12000000000)
      = Inr (priced ''poolD'' False 4000000 12000000000 (of_int 3000) (of_int 12) (of_int 4))"
    by (rule getPriceAndLiquidity_exact) simp_all
  then show ?thesis by (simp add: pricedD_def)
qed

lemma conn1_base:
  "await (getPoolsWithBaseMint conn1 mintX)
     = Inr [candidate ''poolA'' False 1000000 5000000000,
            candidate ''poolB'' False 2000000 12000000000]"
  by (simp add: await_def getPoolsWithBaseMint_def lookup_def conn1_def accountA_def accountB_def
      decode_def candidate_def)

lemma conn1_quote:
  "await (getPoolsWithQuoteMint conn1 mintX) = Inr [candidate ''poolC'' True 1000000 3000000000]"
  by (simp add: await_def getPoolsWithQuoteMint_def lookup_def conn1_def accountC_def
      decode_def candidate_def)

lemma conn1_wsol:
  "await (getPoolsWithBaseMintQuoteWSOL conn1 mintX)
     = Inr [candidate ''poolA'' False 1000000 5000000000,
            candidate ''poolD'' False 4000000 12000000000]"
  by (simp add: await_def getPoolsWithBaseMintQuoteWSOL_def lookup_def conn1_def accountA_def
      accountD_def decode_def candidate_def mintX_def WSOL_def)

lemma conn1_pools:
  "getPoolsWithPrices conn1 mintX = Inr [pricedA, pricedB, pricedC, pricedA, pricedD]"
proof -
  have "await (promise_all (map (\<lambda>pool. (0, getPriceAndLiquidity pool))
          ([candidate ''poolA'' False 1000000 5000000000,
            candidate ''poolB'' False 2000000 12000000000]
           @ [candidate ''poolC'' True 1000000 3000000000]
           @ [candidate ''poolA'' False 1000000 5000000000,
              candidate ''poolD'' False 4000000 12000000000])))
        = Inr [pricedA, pricedB, pricedC, pricedA, pricedD]"
    unfolding await_promise_all_Inr by (simp add: priceA priceB priceC priceD)
  then show ?thesis
    by (simp add: getPoolsWithPrices_lookups[OF conn1_base conn1_quote conn1_wsol])
      (simp add: pricedA_def pricedB_def pricedC_def pricedD_def priced_def js_gt_Finite)
qed

lemma conn1_best: "getBestPool conn1 mintX = Inr (Some pricedB)"
  by (simp add: getBestPool_def conn1_pools better_def)
    (simp add: pricedA_def pricedB_def pricedC_def pricedD_def priced_def js_gt_Finite)

lemma pricedB_reserves:
  "baseReserve (poolData pricedB) = 2000000" "quoteReserve (poolData pricedB) = 12000000000"
  by (simp_all add: pricedB_def priced_def)

lemma connE_pools: "getPoolsWithPrices connE m = Inr []"
proof -
  have "await (getPoolsWithBaseMint connE m) = Inr []"
    "await (getPoolsWithQuoteMint connE m) = Inr []"
    "await (getPoolsWithBaseMintQuoteWSOL connE m) = Inr []"
    by (simp_all add: await_def getPoolsWithBaseMint_def getPoolsWithQuoteMint_def
        getPoolsWithBaseMintQuoteWSOL_def lookup_def connE_def)
  from getPoolsWithPrices_lookups[OF this] show ?thesis
    by (simp add: await_def promise_all_def)
qed

lemma connZ_base:
  "await (getPoolsWithBaseMint connZ mintX)
     = Inr [candidate ''poolA'' False 1000000 5000000000,
            candidate ''poolZ'' False 0 7000000000]"
  by (simp add: await_def getPoolsWithBaseMint_def lookup_def connZ_def accountA_def accountZ_def
      decode_def candidate_def)

lemma connZ_quote: "await (getPoolsWithQuoteMint connZ mintX) = Inr []"
  by (simp add: await_def getPoolsWithQuoteMint_def lookup_def connZ_def)

lemma connZ_wsol: "await (getPoolsWithBaseMintQuoteWSOL connZ mintX) = Inr []"
  by (simp add: await_def getPoolsWithBaseMintQuoteWSOL_def lookup_def connZ_def)

lemma connF_pools: "getPoolsWithPrices connF mintX = Inl (RpcError ''429 Too Many Requests'')"
  by (simp add: getPoolsWithPrices_def await_def promise_all_def getPoolsWithBaseMint_def
      getPoolsWithQuoteMint_def getPoolsWithBaseMintQuoteWSOL_def lookup_def connF_def
      accountA_def decode_def mintX_def WSOL_def)

section \<open>BigInt division on non-negative operands\<close>

lemma tdiv_nonneg: "0 \<le> a \<Longrightarrow> 0 < b \<Longrightarrow> tdiv a b = a div b"
  by (auto simp: tdiv_def sgn_if)

lemma tdiv_floor: "0 \<le> a \<Longrightarrow> 0 < b \<Longrightarrow> tdiv a b = \<lfloor>(of_int a :: rat) / of_int b\<rfloor>"
  by (simp add: tdiv_nonneg floor_divide_of_int_eq)

lemma le_zdiv_iff: "0 < m \<Longrightarrow> a \<le> n div m \<longleftrightarrow> a * m \<le> (n::int)"
proof
  assume m: "0 < m" and a: "a \<le> n div m"
  have "a * m \<le> (n div m) * m" using a m by (intro mult_right_mono) simp_all
  also have "\<dots> \<le> n"
    using div_mult_mod_eq[of n m] pos_mod_sign[OF m, of n] by linarith
  finally show "a * m \<le> n" .
next
  assume m: "0 < m" and a: "a * m \<le> n"
  have "a = (a * m) div m" using m by simp
  also have "\<dots> \<le> n div m" using a m by (rule zdiv_mono1)
  finally show "a \<le> n div m" .
qed

section \<open>Quotes: closed forms and arithmetic\<close>

lemma buy_closed_form:
  assumes "getBestPool conn mint = Inr (Some pool)"
    and "0 < quoteReserve (poolData pool) + solAmount"
    and "0 \<le> baseReserve (poolData pool) * quoteReserve (poolData pool)"
  shows "calculateBuyTokenAmount conn solAmount mint
    = Inr (baseReserve (poolData pool)
         - (baseReserve (poolData pool) * quoteReserve (poolData pool))
             div (quoteReserve (poolData pool) + solAmount))"
  using assms by (simp add: calculateBuyTokenAmount_def Let_def bigint_div_def tdiv_nonneg)

lemma sell_closed_form:
  assumes "getBestPool conn mint = Inr (Some pool)"
    and "0 < baseReserve (poolData pool) + tokenAmount"
    and "0 \<le> baseReserve (poolData pool) * quoteReserve (poolData pool)"
  shows "calculateSellSolAmount conn tokenAmount mint
    = Inr (quoteReserve (poolData pool)
         - (baseReserve (poolData pool) * quoteReserve (poolData pool))
             div (baseReserve (poolData pool) + tokenAmount))"
  using assms by (simp add: calculateSellSolAmount_def Let_def bigint_div_def tdiv_nonneg)

text \<open>The arithmetic of one quote: \<open>out = r - (r * s) div (s + x)\<close>.\<close>

lemma quote_bounds:
  assumes "0 < r" "0 < s" "0 \<le> (x::int)"
  shows "0 \<le> r - (r * s) div (s + x)" "r - (r * s) div (s + x) \<le> r"
    "r - (r * s) div (s + x) = r \<longleftrightarrow> (r - 1) * s < x"
proof -
  have sx: "0 < s + x" using assms by simp
  have rs: "0 \<le> r * s" using assms by simp
  have "(r * s) div (s + x) \<le> (r * s) div s"
    using rs assms by (intro zdiv_mono2) simp_all
  then show "0 \<le> r - (r * s) div (s + x)" using assms by simp
  have nn: "0 \<le> (r * s) div (s + x)" using rs sx by (simp add: pos_imp_zdiv_nonneg_iff)
  then show "r - (r * s) div (s + x) \<le> r" by simp
  have "(r * s) div (s + x) = 0 \<longleftrightarrow> r * s < s + x"
    using rs sx by (auto simp: zdiv_eq_0_iff)
  also have "\<dots> \<longleftrightarrow> (r - 1) * s < x" by (simp add: algebra_simps)
  finally show "r - (r * s) div (s + x) = r \<longleftrightarrow> (r - 1) * s < x" by simp
qed

text \<open>
  The round trip: \<open>d\<close> bought for \<open>i\<close> out of reserves \<open>(B, Q)\<close>, then \<open>d\<close> sold
  against the same reserves.
\<close>

lemma round_trip_iff:
  assumes "0 < B" "0 \<le> (d::int)"
  shows "Q - (B * Q) div (B + d) \<le> i \<longleftrightarrow> d * (Q - i) \<le> i * B"
proof -
  have bd: "0 < B + d" using assms by simp
  have "Q - (B * Q) div (B + d) \<le> i \<longleftrightarrow> Q - i \<le> (B * Q) div (B + d)" by auto
  also have "\<dots> \<longleftrightarrow> (Q - i) * (B + d) \<le> B * Q" by (rule le_zdiv_iff[OF bd])
  also have "\<dots> \<longleftrightarrow> d * (Q - i) \<le> i * B" by (simp add: algebra_simps)
  finally show ?thesis .
qed

lemma bought_upper:
  assumes "0 < B" "0 < Q" "0 < (i::int)"
  shows "(B - (B * Q) div (Q + i)) * (Q + i) \<le> B * i + Q + i - 1"
proof -
  have qi: "0 < Q + i" using assms by simp
  have "B * Q = (B * Q) div (Q + i) * (Q + i) + (B * Q) mod (Q + i)"
    by (rule div_mult_mod_eq[symmetric])
  moreover have "(B * Q) mod (Q + i) < Q + i" using qi by (rule pos_mod_bound)
  ultimately have "B * Q - (Q + i) + 1 \<le> (B * Q) div (Q + i) * (Q + i)" by linarith
  then show ?thesis by (simp add: algebra_simps)
qed

lemma round_trip_sufficient:
  assumes "0 < B" "0 < Q" "0 < (i::int)" "Q * Q \<le> i * i * (2 * B + 1)"
  shows "(B - (B * Q) div (Q + i)) * (Q - i) \<le> i * B"
proof (cases "Q \<le> i")
  case True
  have "0 \<le> B - (B * Q) div (Q + i)" using quote_bounds(1)[of B Q i] assms by simp
  then have "(B - (B * Q) div (Q + i)) * (Q - i) \<le> 0"
    using True by (simp add: mult_nonneg_nonpos)
  also have "0 \<le> i * B" using assms by simp
  finally show ?thesis .
next
  case False
  let ?d = "B - (B * Q) div (Q + i)"
  have qi: "0 < Q - i" using False by simp
  have pq: "0 < Q + i" using assms by simp
  have "?d * (Q - i) * (Q + i) = ?d * (Q + i) * (Q - i)" by (simp add: algebra_simps)
  also have "\<dots> \<le> (B * i + Q + i - 1) * (Q - i)"
    using bought_upper[OF assms(1-3)] qi by (intro mult_right_mono) simp_all
  also have "\<dots> = B * i * Q + (Q * Q - Q + i) - B * (i * i) - i * i"
    by (simp add: algebra_simps)
  also have "\<dots> \<le> B * i * Q + i * i * (2 * B + 1) - B * (i * i) - i * i"
    using assms(4) False by simp
  also have "\<dots> = i * B * (Q + i)" by (simp add: algebra_simps)
  finally have "?d * (Q - i) * (Q + i) \<le> i * B * (Q + i)" .
  then show ?thesis using pq by (simp add: mult_le_cancel_right)
qed

section \<open>Slippage\<close>

text \<open>
  Claim C2. For a non-negative ideal amount and a tolerance of 0 to 10000 basis points, the
  slippage adjustment is \<open>floor (idealAmount * (10000 - bps) / 10000)\<close>, the buy and the
  sell direction compute the same value, a tolerance of 0 leaves the amount unchanged, a
  tolerance of 10000 gives 0, and a larger tolerance never gives a larger result.
\<close>

theorem slippage_formula:
  assumes "0 \<le> idealAmount" "0 \<le> bps" "bps \<le> 10000"
  shows "calculateWithSlippageBuy idealAmount bps
           = \<lfloor>(of_int (idealAmount * (10000 - bps)) :: rat) / of_int 10000\<rfloor>
       \<and> calculateWithSlippageSell idealAmount bps = calculateWithSlippageBuy idealAmount bps
       \<and> calculateWithSlippageBuy idealAmount 0 = idealAmount
       \<and> calculateWithSlippageBuy idealAmount 10000 = 0
       \<and> (\<forall>bps'. bps \<le> bps' \<and> bps' \<le> 10000 \<longrightarrow>
             calculateWithSlippageBuy idealAmount bps' \<le> calculateWithSlippageBuy idealAmount bps)"
proof -
  have f: "calculateWithSlippageBuy idealAmount b = idealAmount * (10000 - b) div 10000"
    if "b \<le> 10000" for b
    using that assms(1) by (simp add: calculateWithSlippageBuy_def tdiv_nonneg)
  have c1: "calculateWithSlippageBuy idealAmount bps
           = \<lfloor>(of_int (idealAmount * (10000 - bps)) :: rat) / of_int 10000\<rfloor>"
    using assms by (simp only: calculateWithSlippageBuy_def) (rule tdiv_floor, simp_all)
  have c2: "calculateWithSlippageSell idealAmount bps = calculateWithSlippageBuy idealAmount bps"
    by (simp add: calculateWithSlippageBuy_def calculateWithSlippageSell_def)
  have c3: "calculateWithSlippageBuy idealAmount 0 = idealAmount"
    using f[of 0] by simp
  have c4: "calculateWithSlippageBuy idealAmount 10000 = 0"
    using f[of 10000] by simp
  have c5: "calculateWithSlippageBuy idealAmount bps' \<le> calculateWithSlippageBuy idealAmount bps"
    if "bps \<le> bps'" "bps' \<le> 10000" for bps'
  proof -
    have "idealAmount * (10000 - bps') \<le> idealAmount * (10000 - bps)"
      using that assms(1) by (intro mult_left_mono) simp_all
    then have "idealAmount * (10000 - bps') div 10000 \<le> idealAmount * (10000 - bps) div 10000"
      by (rule zdiv_mono1) simp
    then show ?thesis using f[of bps'] f[of bps] that assms by simp
  qed
  show ?thesis using c1 c2 c3 c4 c5 by blast
qed

theorem slippage_formula_witness:
  "(0::int) \<le> 9803922 \<and> (0::int) \<le> 500 \<and> (500::int) \<le> 10000
   \<and> calculateWithSlippageBuy 9803922 500 = \<lfloor>(of_int (9803922 * (10000 - 500)) :: rat) / of_int 10000\<rfloor>
   \<and> calculateWithSlippageBuy 9803922 500 = 9313725
   \<and> calculateWithSlippageSell 9803922 500 = 9313725
   \<and> calculateWithSlippageBuy 9803922 0 = 9803922
   \<and> calculateWithSlippageBuy 9803922 10000 = 0
   \<and> calculateWithSlippageBuy 9803922 600 \<le> calculateWithSlippageBuy 9803922 500"
proof -
  have h: "(0::int) \<le> 9803922" "(0::int) \<le> 500" "(500::int) \<le> 10000"
    by simp_all
  note t = slippage_formula[OF h]
  have v: "calculateWithSlippageBuy 9803922 500 = 9313725"
    by (simp add: calculateWithSlippageBuy_def tdiv_def)
  from t have a: "calculateWithSlippageBuy 9803922 500
      = \<lfloor>(of_int (9803922 * (10000 - 500)) :: rat) / of_int 10000\<rfloor>"
    by blast
  from t have b: "calculateWithSlippageSell 9803922 500 = calculateWithSlippageBuy 9803922 500"
    by blast
  from t have c: "calculateWithSlippageBuy 9803922 0 = 9803922"
    and d: "calculateWithSlippageBuy 9803922 10000 = 0"
    by blast+
  from t have "\<forall>bps'. 500 \<le> bps' \<and> bps' \<le> 10000 \<longrightarrow>
      calculateWithSlippageBuy 9803922 bps' \<le> calculateWithSlippageBuy 9803922 500"
    by blast
  then have e: "calculateWithSlippageBuy 9803922 600 \<le> calculateWithSlippageBuy 9803922 500"
    by (rule allE[of _ 600]) simp
  show ?thesis
    using h a b[unfolded v] v c d e by (intro conjI)
qed

section \<open>Constant-product quotes\<close>

text \<open>
  Claim C1. For the pool that \<open>getBestPool\<close> returns, with strictly positive reserves,
  and a non-negative input amount, the buy quote is
  \<open>baseReserve - floor (baseReserve * quoteReserve / (quoteReserve + amountIn))\<close> and the
  sell quote is \<open>quoteReserve - floor (baseReserve * quoteReserve / (baseReserve + amountIn))\<close>,
  in exact integer arithmetic, the product being taken from the reserves just fetched.
\<close>

theorem constant_product_quotes:
  assumes "getBestPool conn mint = Inr (Some pool)"
    and "0 < baseReserve (poolData pool)" "0 < quoteReserve (poolData pool)"
    and "0 \<le> amountIn"
  shows "calculateBuyTokenAmount conn amountIn mint
           = Inr (baseReserve (poolData pool)
                  - \<lfloor>(of_int (baseReserve (poolData pool) * quoteReserve (poolData pool)) :: rat)
                       / of_int (quoteReserve (poolData pool) + amountIn)\<rfloor>)
       \<and> calculateSellSolAmount conn amountIn mint
           = Inr (quoteReserve (poolData pool)
                  - \<lfloor>(of_int (baseReserve (poolData pool) * quoteReserve (poolData pool)) :: rat)
                       / of_int (baseReserve (poolData pool) + amountIn)\<rfloor>)"
proof -
  have k: "0 \<le> baseReserve (poolData pool) * quoteReserve (poolData pool)"
    using assms(2,3) by simp
  have q: "0 < quoteReserve (poolData pool) + amountIn" using assms(3,4) by simp
  have b: "0 < baseReserve (poolData pool) + amountIn" using assms(2,4) by simp
  show ?thesis
    by (simp only: buy_closed_form[OF assms(1) q k] sell_closed_form[OF assms(1) b k]
        floor_divide_of_int_eq)
qed

theorem constant_product_quotes_witness:
  "getBestPool conn1 mintX = Inr (Some pricedB)
   \<and> 0 < baseReserve (poolData pricedB) \<and> 0 < quoteReserve (poolData pricedB)
   \<and> (0::int) \<le> 1000000000
   \<and> calculateBuyTokenAmount conn1 1000000000 mintX = Inr 153847
   \<and> calculateSellSolAmount conn1 1000000000 mintX = Inr 11976047905"
proof -
  have h: "0 < baseReserve (poolData pricedB)" "0 < quoteReserve (poolData pricedB)"
    "(0::int) \<le> 1000000000"
    by (simp_all add: pricedB_reserves)
  note t = constant_product_quotes[OF conn1_best h,
      unfolded pricedB_reserves floor_divide_of_int_eq]
  have "calculateBuyTokenAmount conn1 1000000000 mintX = Inr 153847"
    "calculateSellSolAmount conn1 1000000000 mintX = Inr 11976047905"
    using t by simp_all
  with conn1_best h show ?thesis by simp
qed

section \<open>Round trip\<close>

text \<open>
  Claim C7 says that quoting a buy of \<open>quoteIn\<close> and then quoting a sell of the resulting
  \<open>baseOut\<close> against the same reserves never gives back more than \<open>quoteIn\<close>. The buy
  quote subtracts a rounded-down reserve, so it rounds \<open>baseOut\<close> up; for a small input
  the extra base unit is worth more than the input. On \<open>poolB\<close> (2000000 base units,
  12000000000 quote units) one quote unit buys one base unit, which sells for 6000.
\<close>

theorem round_trip_profitable:
  "calculateBuyTokenAmount conn1 1 mintX = Inr 1
   \<and> calculateSellSolAmount conn1 1 mintX = Inr 6000
   \<and> \<not> ((6000::int) \<le> 1)"
proof -
  have "calculateBuyTokenAmount conn1 1 mintX = Inr 1"
    by (simp add: buy_closed_form[OF conn1_best] pricedB_reserves)
  moreover have "calculateSellSolAmount conn1 1 mintX = Inr 6000"
    by (simp add: sell_closed_form[OF conn1_best] pricedB_reserves)
  ultimately show ?thesis by simp
qed

text \<open>
  Claim C7, amended. For strictly positive reserves \<open>(B, Q)\<close> and a positive
  \<open>quoteIn\<close> both quotes are returned, the round trip gives \<open>quoteOut \<le> quoteIn\<close>
  exactly when \<open>baseOut * (Q - quoteIn) \<le> quoteIn * B\<close>, and this is the case whenever
  \<open>Q * Q \<le> quoteIn * quoteIn * (2 * B + 1)\<close>.
\<close>

theorem round_trip_bound:
  assumes "getBestPool conn mint = Inr (Some pool)"
    and "0 < baseReserve (poolData pool)" "0 < quoteReserve (poolData pool)"
    and "0 < quoteIn"
  shows "\<exists>baseOut quoteOut.
           calculateBuyTokenAmount conn quoteIn mint = Inr baseOut
         \<and> calculateSellSolAmount conn baseOut mint = Inr quoteOut
         \<and> (quoteOut \<le> quoteIn \<longleftrightarrow>
              baseOut * (quoteReserve (poolData pool) - quoteIn)
                \<le> quoteIn * baseReserve (poolData pool))
         \<and> (quoteReserve (poolData pool) * quoteReserve (poolData pool)
               \<le> quoteIn * quoteIn * (2 * baseReserve (poolData pool) + 1)
             \<longrightarrow> quoteOut \<le> quoteIn)"
proof -
  let ?B = "baseReserve (poolData pool)" and ?Q = "quoteReserve (poolData pool)"
  let ?d = "?B - (?B * ?Q) div (?Q + quoteIn)"
  let ?o = "?Q - (?B * ?Q) div (?B + ?d)"
  have k: "0 \<le> ?B * ?Q" using assms(2,3) by simp
  have q: "0 < ?Q + quoteIn" using assms(3,4) by simp
  have d0: "0 \<le> ?d" using quote_bounds(1)[of ?B ?Q quoteIn] assms by simp
  have b: "0 < ?B + ?d" using assms(2) d0 by linarith
  have buy: "calculateBuyTokenAmount conn quoteIn mint = Inr ?d"
    by (rule buy_closed_form[OF assms(1) q k])
  have sell: "calculateSellSolAmount conn ?d mint = Inr ?o"
    by (rule sell_closed_form[OF assms(1) b k])
  have iff: "?o \<le> quoteIn \<longleftrightarrow> ?d * (?Q - quoteIn) \<le> quoteIn * ?B"
    by (rule round_trip_iff[OF assms(2) d0])
  have suff: "?o \<le> quoteIn" if "?Q * ?Q \<le> quoteIn * quoteIn * (2 * ?B + 1)"
    using round_trip_sufficient[OF assms(2,3,4) that] iff by simp
  from buy sell iff suff show ?thesis by blast
qed

theorem round_trip_bound_witness:
  "getBestPool conn1 mintX = Inr (Some pricedB)
   \<and> 0 < baseReserve (poolData pricedB) \<and> 0 < quoteReserve (poolData pricedB)
   \<and> (0::int) < 1000000000
   \<and> quoteReserve (poolData pricedB) * quoteReserve (poolData pricedB)
        \<le> 1000000000 * 1000000000 * (2 * baseReserve (poolData pricedB) + 1)
   \<and> calculateBuyTokenAmount conn1 1000000000 mintX = Inr 153847
   \<and> calculateSellSolAmount conn1 153847 mintX = Inr 857147235
   \<and> (857147235::int) \<le> 1000000000"
proof -
  have h: "0 < baseReserve (poolData pricedB)" "0 < quoteReserve (poolData pricedB)"
    "(0::int) < 1000000000"
    by (simp_all add: pricedB_reserves)
  have c: "quoteReserve (poolData pricedB) * quoteReserve (poolData pricedB)
        \<le> 1000000000 * 1000000000 * (2 * baseReserve (poolData pricedB) + 1)"
    by (simp add: pricedB_reserves)
  from round_trip_bound[OF conn1_best h] obtain baseOut quoteOut where
    r: "calculateBuyTokenAmount conn1 1000000000 mintX = Inr baseOut"
      "calculateSellSolAmount conn1 baseOut mintX = Inr quoteOut"
      "quoteReserve (poolData pricedB) * quoteReserve (poolData pricedB)
         \<le> 1000000000 * 1000000000 * (2 * baseReserve (poolData pricedB) + 1)
       \<longrightarrow> quoteOut \<le> 1000000000"
    by blast
  have b: "calculateBuyTokenAmount conn1 1000000000 mintX = Inr 153847"
    by (simp add: buy_closed_form[OF conn1_best] pricedB_reserves)
  have s: "calculateSellSolAmount conn1 153847 mintX = Inr 857147235"
    by (simp add: sell_closed_form[OF conn1_best] pricedB_reserves)
  from r(1) b have "baseOut = 153847" by simp
  with r(2) s have "quoteOut = 857147235" by simp
  with r(3) c have "(857147235::int) \<le> 1000000000" by simp
  with conn1_best h c b s show ?thesis by blast
qed

section \<open>Trades larger than the reserves\<close>

text \<open>
  Claim C8 says that a trade which would drive the new reserve to zero fails with a
  reserve-exhaustion error. The quoters have no such check: on \<open>poolB\<close> a buy with
  24000000000000000 quote units leaves \<open>floor (k / newQuoteReserve) = 0\<close> and is quoted
  the whole base reserve.
\<close>

theorem exhausting_trade_is_quoted:
  "getBestPool conn1 mintX = Inr (Some pricedB)
   \<and> baseReserve (poolData pricedB) = 2000000
   \<and> calculateBuyTokenAmount conn1 24000000000000000 mintX = Inr 2000000"
proof -
  have "calculateBuyTokenAmount conn1 24000000000000000 mintX = Inr 2000000"
    by (simp add: buy_closed_form[OF conn1_best] pricedB_reserves)
  with conn1_best pricedB_reserves(1) show ?thesis by simp
qed

text \<open>
  Claim C8, amended. For strictly positive reserves and a non-negative trade size both
  quoters return a quote and never an error. The quote lies between 0 and the reserve
  that is bought from, and it is the whole reserve exactly when the trade is so large
  that the rounded new reserve is 0: \<open>amount > (B - 1) * Q\<close> for a buy,
  \<open>amount > (Q - 1) * B\<close> for a sell.
\<close>

theorem quotes_never_fail:
  assumes "getBestPool conn mint = Inr (Some pool)"
    and "0 < baseReserve (poolData pool)" "0 < quoteReserve (poolData pool)"
    and "0 \<le> amount"
  shows "\<exists>baseOut quoteOut.
           calculateBuyTokenAmount conn amount mint = Inr baseOut
         \<and> 0 \<le> baseOut \<and> baseOut \<le> baseReserve (poolData pool)
         \<and> (baseOut = baseReserve (poolData pool) \<longleftrightarrow>
              (baseReserve (poolData pool) - 1) * quoteReserve (poolData pool) < amount)
         \<and> calculateSellSolAmount conn amount mint = Inr quoteOut
         \<and> 0 \<le> quoteOut \<and> quoteOut \<le> quoteReserve (poolData pool)
         \<and> (quoteOut = quoteReserve (poolData pool) \<longleftrightarrow>
              (quoteReserve (poolData pool) - 1) * baseReserve (poolData pool) < amount)"
proof -
  let ?B = "baseReserve (poolData pool)" and ?Q = "quoteReserve (poolData pool)"
  have k: "0 \<le> ?B * ?Q" using assms(2,3) by simp
  have q: "0 < ?Q + amount" using assms(3,4) by simp
  have b: "0 < ?B + amount" using assms(2,4) by simp
  note buy = buy_closed_form[OF assms(1) q k]
  note sell = sell_closed_form[OF assms(1) b k]
  note bb = quote_bounds[OF assms(2,3,4)]
  note sb = quote_bounds[OF assms(3,2,4), unfolded mult.commute[of ?Q ?B]]
  from buy sell bb sb show ?thesis by blast
qed

theorem quotes_never_fail_witness:
  "getBestPool conn1 mintX = Inr (Some pricedB)
   \<and> 0 < baseReserve (poolData pricedB) \<and> 0 < quoteReserve (poolData pricedB)
   \<and> (0::int) \<le> 24000000000000000
   \<and> (baseReserve (poolData pricedB) - 1) * quoteReserve (poolData pricedB) < 24000000000000000
   \<and> calculateBuyTokenAmount conn1 24000000000000000 mintX = Inr (baseReserve (poolData pricedB))
   \<and> \<not> isl (calculateSellSolAmount conn1 24000000000000000 mintX)"
proof -
  have h: "0 < baseReserve (poolData pricedB)" "0 < quoteReserve (poolData pricedB)"
    "(0::int) \<le> 24000000000000000"
    by (simp_all add: pricedB_reserves)
  have c: "(baseReserve (poolData pricedB) - 1) * quoteReserve (poolData pricedB)
      < 24000000000000000"
    by (simp add: pricedB_reserves)
  from quotes_never_fail[OF conn1_best h] obtain baseOut quoteOut where
    r: "calculateBuyTokenAmount conn1 24000000000000000 mintX = Inr baseOut"
      "baseOut = baseReserve (poolData pricedB) \<longleftrightarrow>
         (baseReserve (poolData pricedB) - 1) * quoteReserve (poolData pricedB)
           < 24000000000000000"
      "calculateSellSolAmount conn1 24000000000000000 mintX = Inr quoteOut"
    by blast
  from r(2) c have "baseOut = baseReserve (poolData pricedB)" by simp
  with r(1,3) conn1_best h c show ?thesis by simp
qed

section \<open>Pool selection\<close>

text \<open>
  Claim C3. When discovery returns the list \<open>pools\<close>, \<open>getBestPool\<close> returns null
  (and no error) for the empty list, and otherwise the pool at the first index whose
  \<open>reserves.native\<close> is the greatest: no pool of the list has a greater one, and every
  pool before it has a strictly smaller one. The native reserves of discovered pools are
  never NaN, so the comparison is a total order on them.
\<close>

theorem best_pool_selection:
  assumes "getPoolsWithPrices conn mint = Inr pools"
  shows "(pools = [] \<longrightarrow> getBestPool conn mint = Inr None)
    \<and> (pools \<noteq> [] \<longrightarrow>
         (\<exists>i<length pools. getBestPool conn mint = Inr (Some (pools ! i))
            \<and> (\<forall>j<length pools. native (reserves (pools ! j)) \<noteq> NaN
                  \<and> \<not> js_gt (native (reserves (pools ! j))) (native (reserves (pools ! i))))
            \<and> (\<forall>j<i. js_gt (native (reserves (pools ! i))) (native (reserves (pools ! j))))))"
proof (cases pools)
  case Nil
  then show ?thesis using assms by (simp add: getBestPool_def)
next
  case (Cons p ps)
  have nn: "\<forall>x\<in>set (p # ps). native (reserves x) \<noteq> NaN"
    using discovered_native_not_NaN[OF assms] Cons by blast
  from foldl_better_first_max[OF nn] obtain i where i: "i < length (p # ps)"
    "foldl better p ps = (p # ps) ! i"
    "\<forall>j<length (p # ps).
           \<not> js_gt (native (reserves ((p # ps) ! j))) (native (reserves ((p # ps) ! i)))"
    "\<forall>j<i. js_gt (native (reserves ((p # ps) ! i))) (native (reserves ((p # ps) ! j)))"
    by blast
  have best: "getBestPool conn mint = Inr (Some ((p # ps) ! i))"
    using assms Cons i(2) by (simp add: getBestPool_def)
  have "\<forall>j<length (p # ps). native (reserves ((p # ps) ! j)) \<noteq> NaN"
    using nn nth_mem by blast
  with i best show ?thesis unfolding Cons by blast
qed

theorem best_pool_selection_witness:
  "getPoolsWithPrices conn1 mintX = Inr [pricedA, pricedB, pricedC, pricedA, pricedD]
   \<and> getBestPool conn1 mintX = Inr (Some ([pricedA, pricedB, pricedC, pricedA, pricedD] ! 1))
   \<and> native (reserves pricedB) = Finite 12 \<and> native (reserves pricedD) = Finite 12
   \<and> pricedB \<noteq> pricedD
   \<and> getPoolsWithPrices connE mintX = Inr []
   \<and> getBestPool connE mintX = Inr None"
proof -
  from best_pool_selection[OF connE_pools] have e: "getBestPool connE mintX = Inr None"
    by simp
  let ?ps = "[pricedA, pricedB, pricedC, pricedA, pricedD]"
  from best_pool_selection[OF conn1_pools] obtain i where
    i: "i < length ?ps" "getBestPool conn1 mintX = Inr (Some (?ps ! i))"
    by auto
  have v: "native (reserves pricedB) = Finite 12" "native (reserves pricedD) = Finite 12"
    "pricedB \<noteq> pricedD"
    by (simp_all add: pricedB_def pricedD_def priced_def)
  from i(2) conn1_best have "getBestPool conn1 mintX = Inr (Some (?ps ! 1))" by simp
  with conn1_pools connE_pools e v show ?thesis by blast
qed

section \<open>Pools without reserves\<close>

text \<open>
  Claim C4 says that a pool with a zero reserve is dropped from the result while the other
  candidates are still returned. \<open>getPriceAndLiquidity\<close> throws on such a pool and
  \<open>Promise.all\<close> rejects with it: on \<open>connZ\<close>, where the lookup finds \<open>poolA\<close> and a
  pool without base reserve, discovery fails and \<open>poolA\<close> is not returned.
\<close>

theorem degenerate_pool_aborts_discovery:
  "await (getPoolsWithBaseMint connZ mintX)
     = Inr [candidate ''poolA'' False 1000000 5000000000,
            candidate ''poolZ'' False 0 7000000000]
   \<and> getPriceAndLiquidity (candidate ''poolA'' False 1000000 5000000000) = Inr pricedA
   \<and> getPoolsWithPrices connZ mintX = Inl InvalidPoolReserves"
proof -
  have "getPoolsWithPrices connZ mintX = Inl InvalidPoolReserves"
    by (simp add: getPoolsWithPrices_lookups[OF connZ_base connZ_quote connZ_wsol]
        await_def promise_all_def priceA)
      (simp add: getPriceAndLiquidity_def candidate_def)
  with connZ_base priceA show ?thesis by simp
qed

text \<open>
  Claim C4, amended. A pool with \<open>baseReserve = 0\<close> or \<open>quoteReserve = 0\<close> never appears
  in the output of \<open>getPoolsWithPrices\<close>; when the three lookups succeed and one of their
  candidates is such a pool, the whole discovery fails with the error
  \<open>Invalid pool reserves\<close> and no candidate is returned.
\<close>

theorem degenerate_pool_is_fatal:
  "(\<forall>pools p. getPoolsWithPrices conn mint = Inr pools \<longrightarrow> p \<in> set pools \<longrightarrow>
       baseReserve (poolData p) \<noteq> 0 \<and> quoteReserve (poolData p) \<noteq> 0)
   \<and> (\<forall>bs qs ws c.
         await (getPoolsWithBaseMint conn mint) = Inr bs \<longrightarrow>
         await (getPoolsWithQuoteMint conn mint) = Inr qs \<longrightarrow>
         await (getPoolsWithBaseMintQuoteWSOL conn mint) = Inr ws \<longrightarrow>
         c \<in> set (bs @ qs @ ws) \<longrightarrow>
         (baseReserve (poolData c) = 0 \<or> quoteReserve (poolData c) = 0) \<longrightarrow>
         getPoolsWithPrices conn mint = Inl InvalidPoolReserves)"
proof (intro conjI allI impI)
  fix pools p
  assume "getPoolsWithPrices conn mint = Inr pools" "p \<in> set pools"
  from discovered_pool[OF this] obtain c where c: "getPriceAndLiquidity c = Inr p" by blast
  from getPriceAndLiquidity_fields(3,4,5)[OF c]
  show "baseReserve (poolData p) \<noteq> 0" "quoteReserve (poolData p) \<noteq> 0" by simp_all
next
  fix bs qs ws c
  assume l: "await (getPoolsWithBaseMint conn mint) = Inr bs"
    "await (getPoolsWithQuoteMint conn mint) = Inr qs"
    "await (getPoolsWithBaseMintQuoteWSOL conn mint) = Inr ws"
    and c: "c \<in> set (bs @ qs @ ws)"
    "baseReserve (poolData c) = 0 \<or> quoteReserve (poolData c) = 0"
  show "getPoolsWithPrices conn mint = Inl InvalidPoolReserves"
    by (simp only: getPoolsWithPrices_lookups[OF l] pricing_degenerate[OF c] sum.case)
qed

theorem degenerate_pool_is_fatal_witness:
  "getPoolsWithPrices conn1 mintX = Inr [pricedA, pricedB, pricedC, pricedA, pricedD]
   \<and> pricedB \<in> set [pricedA, pricedB, pricedC, pricedA, pricedD]
   \<and> baseReserve (poolData pricedB) \<noteq> 0 \<and> quoteReserve (poolData pricedB) \<noteq> 0
   \<and> await (getPoolsWithBaseMint connZ mintX)
        = Inr [candidate ''poolA'' False 1000000 5000000000,
               candidate ''poolZ'' False 0 7000000000]
   \<and> await (getPoolsWithQuoteMint connZ mintX) = Inr []
   \<and> await (getPoolsWithBaseMintQuoteWSOL connZ mintX) = Inr []
   \<and> baseReserve (poolData (candidate ''poolZ'' False 0 7000000000)) = 0
   \<and> getPoolsWithPrices connZ mintX = Inl InvalidPoolReserves"
proof -
  have m: "pricedB \<in> set [pricedA, pricedB, pricedC, pricedA, pricedD]" by simp
  from degenerate_pool_is_fatal[of conn1 mintX] conn1_pools m
  have a: "baseReserve (poolData pricedB) \<noteq> 0 \<and> quoteReserve (poolData pricedB) \<noteq> 0"
    by blast
  have z: "baseReserve (poolData (candidate ''poolZ'' False 0 7000000000)) = 0"
    by (simp add: candidate_def)
  have zm: "candidate ''poolZ'' False 0 7000000000
      \<in> set ([candidate ''poolA'' False 1000000 5000000000,
               candidate ''poolZ'' False 0 7000000000] @ [] @ [])"
    by simp
  from degenerate_pool_is_fatal[of connZ mintX] connZ_base connZ_quote connZ_wsol zm z
  have b: "getPoolsWithPrices connZ mintX = Inl InvalidPoolReserves"
    by blast
  from conn1_pools m a connZ_base connZ_quote connZ_wsol z b show ?thesis by blast
qed

section \<open>Failed queries and empty results\<close>

text \<open>
  Claim C6. If one of the three \<open>getProgramAccounts\<close> queries of a discovery is rejected,
  \<open>getPoolsWithPrices\<close> fails, with the error of a lookup that failed, and so do
  \<open>getBestPool\<close> and \<open>getPrice\<close>: neither the pools of the queries that answered nor an
  empty list is returned. If the three queries complete and match nothing, discovery
  returns the empty list and no error.
\<close>

theorem query_failure_fails_discovery:
  "((isl (snd (conn [Memcmp 43 mint])) \<or> isl (snd (conn [Memcmp 75 mint]))
      \<or> isl (snd (conn [Memcmp 43 mint, Memcmp 75 WSOL]))) \<longrightarrow>
     (\<exists>e. getPoolsWithPrices conn mint = Inl e
        \<and> getBestPool conn mint = Inl e \<and> getPrice conn mint = Inl e
        \<and> (await (getPoolsWithBaseMint conn mint) = Inl e
           \<or> await (getPoolsWithQuoteMint conn mint) = Inl e
           \<or> await (getPoolsWithBaseMintQuoteWSOL conn mint) = Inl e)))
   \<and> (snd (conn [Memcmp 43 mint]) = Inr [] \<and> snd (conn [Memcmp 75 mint]) = Inr []
        \<and> snd (conn [Memcmp 43 mint, Memcmp 75 WSOL]) = Inr [] \<longrightarrow>
      getPoolsWithPrices conn mint = Inr [])"
proof (intro conjI impI)
  assume "isl (snd (conn [Memcmp 43 mint])) \<or> isl (snd (conn [Memcmp 75 mint]))
      \<or> isl (snd (conn [Memcmp 43 mint, Memcmp 75 WSOL]))"
  then have "isl (await (getPoolsWithBaseMint conn mint))
    \<or> isl (await (getPoolsWithQuoteMint conn mint))
    \<or> isl (await (getPoolsWithBaseMintQuoteWSOL conn mint))"
    unfolding getPoolsWithBaseMint_def getPoolsWithQuoteMint_def getPoolsWithBaseMintQuoteWSOL_def
    by (auto simp: isl_def dest: lookup_rejected)
  from getPoolsWithPrices_lookup_rejected[OF this] obtain e where
    e: "getPoolsWithPrices conn mint = Inl e"
      "await (getPoolsWithBaseMint conn mint) = Inl e
       \<or> await (getPoolsWithQuoteMint conn mint) = Inl e
       \<or> await (getPoolsWithBaseMintQuoteWSOL conn mint) = Inl e"
    by blast
  from e(1) have "getBestPool conn mint = Inl e" by (simp only: getBestPool_Inl)
  moreover from this have "getPrice conn mint = Inl e" by (simp only: getPrice_Inl)
  ultimately show "\<exists>e. getPoolsWithPrices conn mint = Inl e
        \<and> getBestPool conn mint = Inl e \<and> getPrice conn mint = Inl e
        \<and> (await (getPoolsWithBaseMint conn mint) = Inl e
           \<or> await (getPoolsWithQuoteMint conn mint) = Inl e
           \<or> await (getPoolsWithBaseMintQuoteWSOL conn mint) = Inl e)"
    using e by blast
next
  assume a: "snd (conn [Memcmp 43 mint]) = Inr [] \<and> snd (conn [Memcmp 75 mint]) = Inr []
        \<and> snd (conn [Memcmp 43 mint, Memcmp 75 WSOL]) = Inr []"
  have l: "await (getPoolsWithBaseMint conn mint) = Inr []"
    "await (getPoolsWithQuoteMint conn mint) = Inr []"
    "await (getPoolsWithBaseMintQuoteWSOL conn mint) = Inr []"
    unfolding getPoolsWithBaseMint_def getPoolsWithQuoteMint_def getPoolsWithBaseMintQuoteWSOL_def
    using a by (simp_all add: lookup_empty)
  from getPoolsWithPrices_lookups[OF l] show "getPoolsWithPrices conn mint = Inr []"
    by (simp add: await_def promise_all_def)
qed

theorem query_failure_fails_discovery_witness:
  "isl (snd (connF [Memcmp 75 mintX]))
   \<and> getPoolsWithPrices connF mintX = Inl (RpcError ''429 Too Many Requests'')
   \<and> isl (getBestPool connF mintX) \<and> isl (getPrice connF mintX)
   \<and> snd (connE [Memcmp 43 mintX]) = Inr [] \<and> snd (connE [Memcmp 75 mintX]) = Inr []
   \<and> snd (connE [Memcmp 43 mintX, Memcmp 75 WSOL]) = Inr []
   \<and> getPoolsWithPrices connE mintX = Inr []"
proof -
  have f: "isl (snd (connF [Memcmp 75 mintX]))" by (simp add: connF_def)
  with query_failure_fails_discovery[of connF mintX] obtain e where
    e: "getPoolsWithPrices connF mintX = Inl e" "getBestPool connF mintX = Inl e"
      "getPrice connF mintX = Inl e"
    by blast
  have n: "snd (connE [Memcmp 43 mintX]) = Inr []" "snd (connE [Memcmp 75 mintX]) = Inr []"
    "snd (connE [Memcmp 43 mintX, Memcmp 75 WSOL]) = Inr []"
    by (simp_all add: connE_def)
  with query_failure_fails_discovery[of connE mintX]
  have z: "getPoolsWithPrices connE mintX = Inr []" by blast
  from e(1) connF_pools have "e = RpcError ''429 Too Many Requests''" by simp
  with e f n z show ?thesis by simp
qed

section \<open>Discovery as a concatenation\<close>

text \<open>
  Claim C9. When the three lookups succeed and every candidate has reserves of an
  unsigned 64-bit integer that are not zero, \<open>getPoolsWithPrices\<close> returns the priced
  candidates of the token-as-base lookup, then those of the token-as-quote lookup, then
  those of the lookup with WSOL as quote, in their order and with nothing removed: a pool
  that two lookups find appears twice.
\<close>

theorem discovery_concatenates_lookups:
  assumes "await (getPoolsWithBaseMint conn mint) = Inr bs"
    and "await (getPoolsWithQuoteMint conn mint) = Inr qs"
    and "await (getPoolsWithBaseMintQuoteWSOL conn mint) = Inr ws"
    and "\<forall>c\<in>set (bs @ qs @ ws).
           0 < baseReserve (poolData c) \<and> baseReserve (poolData c) < 2 ^ 64
         \<and> 0 < quoteReserve (poolData c) \<and> quoteReserve (poolData c) < 2 ^ 64"
  shows "\<exists>pools. getPoolsWithPrices conn mint = Inr pools
           \<and> map getPriceAndLiquidity (bs @ qs @ ws) = map Inr pools
           \<and> map Pool.truncate pools = bs @ qs @ ws"
proof -
  let ?cs = "bs @ qs @ ws"
  let ?ys = "map (projr \<circ> getPriceAndLiquidity) ?cs"
  have nz: "\<forall>p\<in>set ?cs. baseReserve (poolData p) \<noteq> 0 \<and> quoteReserve (poolData p) \<noteq> 0"
    using assms(4) by fastforce
  have keep: "\<forall>y\<in>set ?ys. js_gt (price y) (Finite 0)"
    using assms(4) priced_u64_positive by auto
  have "getPoolsWithPrices conn mint
      = Inr (filter (\<lambda>pool. js_gt (price pool) (Finite 0)) ?ys)"
    by (rule getPoolsWithPrices_priced[OF assms(1-3) nz])
  also have "filter (\<lambda>pool. js_gt (price pool) (Finite 0)) ?ys = ?ys"
    using keep by (simp only: filter_True)
  finally have r: "getPoolsWithPrices conn mint = Inr ?ys" .
  have each: "getPriceAndLiquidity c = Inr (projr (getPriceAndLiquidity c))" if "c \<in> set ?cs" for c
    using nz that by (intro getPriceAndLiquidity_Inr) blast+
  have m: "map getPriceAndLiquidity ?cs = map Inr ?ys"
    using each by (simp only: map_map) (rule map_cong, simp_all)
  have t: "map Pool.truncate ?ys = ?cs"
  proof -
    have "map Pool.truncate ?ys = map (\<lambda>c. c) ?cs"
      unfolding map_map
    proof (rule map_cong)
      fix c assume "c \<in> set ?cs"
      from truncate_priced[OF each[OF this]]
      show "(Pool.truncate \<circ> (projr \<circ> getPriceAndLiquidity)) c = c" by simp
    qed simp
    then show ?thesis by simp
  qed
  from r m t show ?thesis by blast
qed

theorem discovery_concatenates_lookups_witness:
  "await (getPoolsWithBaseMint conn1 mintX)
     = Inr [candidate ''poolA'' False 1000000 5000000000,
            candidate ''poolB'' False 2000000 12000000000]
   \<and> await (getPoolsWithQuoteMint conn1 mintX) = Inr [candidate ''poolC'' True 1000000 3000000000]
   \<and> await (getPoolsWithBaseMintQuoteWSOL conn1 mintX)
     = Inr [candidate ''poolA'' False 1000000 5000000000,
            candidate ''poolD'' False 4000000 12000000000]
   \<and> getPoolsWithPrices conn1 mintX = Inr [pricedA, pricedB, pricedC, pricedA, pricedD]
   \<and> map Pool.truncate [pricedA, pricedB, pricedC, pricedA, pricedD]
       = [candidate ''poolA'' False 1000000 5000000000,
          candidate ''poolB'' False 2000000 12000000000,
          candidate ''poolC'' True 1000000 3000000000,
          candidate ''poolA'' False 1000000 5000000000,
          candidate ''poolD'' False 4000000 12000000000]"
proof -
  let ?bs = "[candidate ''poolA'' False 1000000 5000000000,
              candidate ''poolB'' False 2000000 12000000000]"
  let ?qs = "[candidate ''poolC'' True 1000000 3000000000]"
  let ?ws = "[candidate ''poolA'' False 1000000 5000000000,
              candidate ''poolD'' False 4000000 12000000000]"
  have u: "\<forall>c\<in>set (?bs @ ?qs @ ?ws).
           0 < baseReserve (poolData c) \<and> baseReserve (poolData c) < 2 ^ 64
         \<and> 0 < quoteReserve (poolData c) \<and> quoteReserve (poolData c) < 2 ^ 64"
    by (simp add: candidate_def)
  from discovery_concatenates_lookups[OF conn1_base conn1_quote conn1_wsol u]
  obtain pools where p: "getPoolsWithPrices conn1 mintX = Inr pools"
    "map Pool.truncate pools = ?bs @ ?qs @ ?ws"
    by blast
  from p(1) conn1_pools have "pools = [pricedA, pricedB, pricedC, pricedA, pricedD]" by simp
  with p(2) have "map Pool.truncate [pricedA, pricedB, pricedC, pricedA, pricedD]
      = ?bs @ ?qs @ ?ws" by simp
  with conn1_base conn1_quote conn1_wsol conn1_pools show ?thesis by simp
qed

section \<open>The price of a token\<close>

text \<open>
  Claim C10. \<open>getPrice\<close> returns null exactly when \<open>getBestPool\<close> returns null. When
  there is a best pool, its price is greater than 0, because it passed the filter of
  \<open>getPoolsWithPrices\<close>, and \<open>getPrice\<close> returns that price; a best pool whose price is
  a zero would be mapped to null by \<open>|| null\<close>; so a number returned by \<open>getPrice\<close> is
  always greater than 0.
\<close>

theorem price_null_iff_no_pool:
  "(getPrice conn mint = Inr None \<longleftrightarrow> getBestPool conn mint = Inr None)
   \<and> (\<forall>p. getBestPool conn mint = Inr (Some p) \<longrightarrow>
          js_gt (price p) (Finite 0) \<and> getPrice conn mint = Inr (Some (price p)))
   \<and> (\<forall>p. is_zero (price p) \<longrightarrow> price_or_null (Some p) = None)
   \<and> (\<forall>x. getPrice conn mint = Inr (Some x) \<longrightarrow> js_gt x (Finite 0))"
proof -
  have pos: "js_gt (price p) (Finite 0)" if "getBestPool conn mint = Inr (Some p)" for p
  proof -
    from best_pool_discovered[OF that] obtain pools where
      "getPoolsWithPrices conn mint = Inr pools" "p \<in> set pools" by blast
    from discovered_pool[OF this] show ?thesis by blast
  qed
  have some: "getPrice conn mint = Inr (Some (price p))"
    if "getBestPool conn mint = Inr (Some p)" for p
    using that js_gt_truthy[OF pos[OF that]] by (simp add: getPrice_def price_or_null_def)
  have a: "getPrice conn mint = Inr None \<longleftrightarrow> getBestPool conn mint = Inr None"
  proof
    assume n: "getPrice conn mint = Inr None"
    show "getBestPool conn mint = Inr None"
    proof (cases "getBestPool conn mint")
      case (Inl e)
      with n show ?thesis by (simp add: getPrice_def)
    next
      case (Inr b)
      show ?thesis
      proof (cases b)
        case None
        with Inr show ?thesis by simp
      next
        case (Some p)
        with Inr some[of p] n show ?thesis by simp
      qed
    qed
  next
    assume "getBestPool conn mint = Inr None"
    then show "getPrice conn mint = Inr None" by (simp add: getPrice_def price_or_null_def)
  qed
  have z: "price_or_null (Some p) = None" if "is_zero (price p)" for p :: PoolWithPrice
    using that by (simp add: price_or_null_def truthy_def)
  have d: "js_gt x (Finite 0)" if "getPrice conn mint = Inr (Some x)" for x
  proof (cases "getBestPool conn mint")
    case (Inl e)
    with that show ?thesis by (simp add: getPrice_def)
  next
    case (Inr b)
    show ?thesis
    proof (cases b)
      case None
      with Inr that show ?thesis by (simp add: getPrice_def price_or_null_def)
    next
      case (Some p)
      with Inr some[of p] that have "x = price p" by simp
      with pos[of p] Inr Some show ?thesis by simp
    qed
  qed
  from a pos some z d show ?thesis by blast
qed

theorem price_null_iff_no_pool_witness:
  "getBestPool conn1 mintX = Inr (Some pricedB)
   \<and> js_gt (price pricedB) (Finite 0)
   \<and> getPrice conn1 mintX = Inr (Some (Finite 6000))
   \<and> js_gt (Finite 6000) (Finite 0)
   \<and> getBestPool connE mintX = Inr None
   \<and> getPrice connE mintX = Inr None
   \<and> is_zero (price (pricedB\<lparr>price := NegZero\<rparr>))
   \<and> price_or_null (Some (pricedB\<lparr>price := NegZero\<rparr>)) = None"
proof -
  note t1 = price_null_iff_no_pool[of conn1 mintX]
  note tE = price_null_iff_no_pool[of connE mintX]
  have p: "price pricedB = Finite 6000" by (simp add: pricedB_def priced_def)
  from t1 conn1_best have a: "js_gt (price pricedB) (Finite 0)"
    "getPrice conn1 mintX = Inr (Some (price pricedB))"
    by blast+
  from t1 a(2) have b: "js_gt (price pricedB) (Finite 0)" by blast
  have e: "getBestPool connE mintX = Inr None"
    by (simp add: getBestPool_None connE_pools)
  with tE have n: "getPrice connE mintX = Inr None" by blast
  have z: "is_zero (price (pricedB\<lparr>price := NegZero\<rparr>))" by simp
  with t1 have zn: "price_or_null (Some (pricedB\<lparr>price := NegZero\<rparr>)) = None" by blast
  from conn1_best a b e n z zn show ?thesis unfolding p by blast
qed

section \<open>The unit of the price\<close>

text \<open>
  Claim C5 says that the price is the quotient of the normalised reserves (quote side
  divided by 1e9, base side by 10^6), in quote units per base unit. The code divides the
  raw amounts: \<open>poolA\<close> holds 5 SOL (5000000000 lamports) and 1 token (1000000 raw
  units), its normalised reserves are 5 and 1, whose quotient is 5, and its price is 5000.
\<close>

theorem price_is_raw_ratio:
  "getPriceAndLiquidity (candidate ''poolA'' False 1000000 5000000000) = Inr pricedA
   \<and> price pricedA = Finite 5000
   \<and> native (reserves pricedA) = Finite 5
   \<and> token (reserves pricedA) = Finite 1
   \<and> number_div (native (reserves pricedA)) (token (reserves pricedA)) = Finite 5"
proof -
  have "number_div (Finite 5) (Finite 1) = Finite (of_int 5)"
    by (rule number_div_exact) simp_all
  then show ?thesis
    using priceA by (simp add: pricedA_def priced_def)
qed

end
